theory Spec2Isabelle
  imports Complex_Main
begin

section \<open>The persistent store of the package task handlers (landscape/package/store.py)\<close>

text \<open>
  The store keeps its data in SQLite files. The embedding below models a file by the
  tables it holds, a connection by the committed content of its file together with the
  content seen inside the open transaction, every method by a function that takes the
  object and returns the result with the updated object, and every exception by a
  value of the type \<open>error\<close> (\<open>Inl\<close> of a sum).
\<close>

subsection \<open>Exceptions\<close>

text \<open>
  \<open>UnknownHashIDRequest\<close> and \<open>InvalidHashIdDb\<close> are the module's own exceptions. The
  others are raised by the sqlite3 binding and by Python: \<open>DatabaseError\<close> (file is not
  a database), its subclasses \<open>OperationalError\<close> (no such table or column, table
  already exists) and \<open>ProgrammingError\<close> (use of a closed cursor), \<open>OverflowError\<close>
  (an integer parameter that does not fit in 64 bits) and \<open>TypeError\<close> (subscript of
  \<open>None\<close>).
\<close>

datatype error =
    UnknownHashIDRequest int
  | InvalidHashIdDb string
  | DatabaseError
  | OperationalError
  | ProgrammingError
  | OverflowError
  | TypeError

text \<open>\<open>except sqlite3.DatabaseError\<close> catches the class and its subclasses.\<close>

fun is_DatabaseError :: "error \<Rightarrow> bool" where
  "is_DatabaseError DatabaseError = True"
| "is_DatabaseError OperationalError = True"
| "is_DatabaseError ProgrammingError = True"
| "is_DatabaseError _ = False"

fun is_OperationalError :: "error \<Rightarrow> bool" where
  "is_OperationalError OperationalError = True"
| "is_OperationalError _ = False"

subsection \<open>Files, tables and connections\<close>

text \<open>
  Modelled from the spec: \<open>landscape.lib.bpickle\<close> is not among the sources. The spec
  calls it a stable serialization whose payloads round-trip exactly, so a serialized
  value is the value in an opaque wrapper: \<open>bpickle_dumps\<close> wraps, \<open>bpickle_loads\<close>
  unwraps.
\<close>

datatype pyvalue =
    PyNone
  | PyBool bool
  | PyInt int
  | PyStr string
  | PyList "pyvalue list"

datatype blob = Pickled pyvalue

definition bpickle_dumps :: "pyvalue \<Rightarrow> blob" where
  "bpickle_dumps v = Pickled v"

fun bpickle_loads :: "blob \<Rightarrow> pyvalue" where
  "bpickle_loads (Pickled v) = v"

text \<open>
  The table \<open>hash (id INTEGER PRIMARY KEY, hash BLOB UNIQUE)\<close> is the list of its rows
  \<open>(id, hash)\<close>; both columns are unique, so at most one row answers a lookup and the
  order of the list plays no part. \<open>ForeignSchema\<close> stands for a table that is called
  \<open>hash\<close>, has neither a column \<open>id\<close> nor a column \<open>hash\<close>, and has one column or more
  than two: the SELECTs of this module, which name the columns, and its REPLACE, which
  gives two values, all fail on it. (A table \<open>hash\<close> of two columns with other names
  fails the SELECTs in the same way, so it is refused like this one when it is attached,
  but it takes the REPLACE of \<open>set_hash_ids\<close>, and what that does depends on the
  constraints of that table; such tables are left out of the model.)
\<close>

datatype hash_table = HashRows "(int \<times> string) list" | ForeignSchema

text \<open>
  The tables \<open>hash_id_request (id INTEGER PRIMARY KEY, timestamp TIMESTAMP, message_id
  INTEGER, hashes BLOB)\<close> and \<open>task (id INTEGER PRIMARY KEY, queue TEXT, timestamp
  TIMESTAMP, data BLOB)\<close>. A timestamp is a reading of \<open>time.time()\<close>.
\<close>

record request_row =
  request_row_id :: int
  request_row_timestamp :: real
  request_row_message_id :: "int option"
  request_row_hashes :: blob

record task_row =
  task_row_id :: int
  task_row_queue :: string
  task_row_timestamp :: real
  task_row_data :: blob

text \<open>
  The six tables of \<open>ensure_package_schema\<close>. A table is the list of its rows in the
  order of a table scan, which is the order of the ids and, for a table whose ids are
  assigned by the engine, also the order of insertion.
\<close>

record package_tables =
  flag_tbl :: "(string \<times> bool) list"
  available_tbl :: "int list"
  available_upgrade_tbl :: "int list"
  installed_tbl :: "int list"
  hash_id_request_tbl :: "request_row list"
  task_tbl :: "task_row list"

text \<open>
  A database has the table \<open>hash\<close> or not, and the six package tables or none of them
  (\<open>ensure_package_schema\<close> creates them together). A file is a database or something
  SQLite does not accept (\<open>Junk\<close>).
\<close>

record database =
  hash_tbl :: "hash_table option"
  package_tbls :: "package_tables option"

datatype dbfile = Junk | Db database

text \<open>
  A connection: \<open>committed\<close> is what the file holds, \<open>working\<close> is what the statements
  of the connection read and write. \<open>commit\<close> writes the working content to the file,
  \<open>rollback\<close> discards it.
\<close>

record connection =
  committed :: dbfile
  working :: dbfile

definition commit :: "connection \<Rightarrow> connection" where
  "commit c = c\<lparr>committed := working c\<rparr>"

definition rollback :: "connection \<Rightarrow> connection" where
  "rollback c = c\<lparr>working := committed c\<rparr>"

text \<open>
  What \<open>sqlite3.connect\<close> finds at a path: a file with some content (\<open>Present\<close>), no
  file in a directory where one can be created (\<open>Absent\<close>), or a path at which a file
  can be neither opened nor created, such as a path in a directory that does not exist
  (\<open>Unopenable\<close>).
\<close>

datatype path_state = Unopenable | Absent | Present dbfile

definition empty_database :: database where
  "empty_database = \<lparr>hash_tbl = None, package_tbls = None\<rparr>"

text \<open>A connection that has just been opened on a file: nothing is pending.\<close>

definition connection_on :: "dbfile \<Rightarrow> connection" where
  "connection_on f = \<lparr>committed = f, working = f\<rparr>"

text \<open>
  \<open>sqlite3.connect(filename)\<close>: it raises \<open>OperationalError\<close> when the file can be
  neither opened nor created, starts from an empty database when there is no file, and
  does not look at the content of a file that is there.
\<close>

definition connect :: "path_state \<Rightarrow> error + connection" where
  "connect at_path =
     (case at_path of
        Unopenable \<Rightarrow> Inl OperationalError
      | Absent \<Rightarrow> Inr (connection_on (Db empty_database))
      | Present f \<Rightarrow> Inr (connection_on f))"

subsection \<open>The decorator \<open>with_cursor\<close>\<close>

text \<open>
  \<^verbatim>\<open>
  def inner(self, *args, **kwargs):
      try:
          cursor = self._db.cursor()
          try:
              result = method(self, cursor, *args, **kwargs)
          finally:
              cursor.close()
          self._db.commit()
      except:
          self._db.rollback()
          raise
      return result
  \<close>
  The method runs its statements on the working content of the connection and returns
  its result, or the exception it raised, together with the content as its statements
  left it. On an exception the connection is rolled back and the exception raised
  again; otherwise the connection is committed.
\<close>

definition with_cursor ::
  "(dbfile \<Rightarrow> (error + 'r) \<times> dbfile) \<Rightarrow> connection \<Rightarrow> (error + 'r) \<times> connection" where
  "with_cursor method c =
     (case method (working c) of
        (Inl e, w) \<Rightarrow> (Inl e, rollback (c\<lparr>working := w\<rparr>))
      | (Inr result, w) \<Rightarrow> (Inr result, commit (c\<lparr>working := w\<rparr>)))"

subsection \<open>SQL statements on the table \<open>hash\<close>\<close>

text \<open>
  Preparing a statement that names the table \<open>hash\<close> and its columns fails with
  \<open>DatabaseError\<close> on a file that is not a database and with \<open>OperationalError\<close> when
  the table or its columns are missing.
\<close>

definition hash_rows :: "dbfile \<Rightarrow> error + (int \<times> string) list" where
  "hash_rows f =
     (case f of
        Junk \<Rightarrow> Inl DatabaseError
      | Db d \<Rightarrow>
          (case hash_tbl d of
             None \<Rightarrow> Inl OperationalError
           | Some ForeignSchema \<Rightarrow> Inl OperationalError
           | Some (HashRows rs) \<Rightarrow> Inr rs))"

definition set_hash_rows :: "(int \<times> string) list \<Rightarrow> dbfile \<Rightarrow> dbfile" where
  "set_hash_rows rs f =
     (case f of Junk \<Rightarrow> Junk | Db d \<Rightarrow> Db (d\<lparr>hash_tbl := Some (HashRows rs)\<rparr>))"

text \<open>An SQLite \<open>INTEGER\<close> is a signed 64-bit integer; the binding raises
  \<open>OverflowError\<close> for a Python integer outside that range.\<close>

definition in_int64 :: "int \<Rightarrow> bool" where
  "in_int64 i \<longleftrightarrow> - (2 ^ 63) \<le> i \<and> i \<le> 2 ^ 63 - 1"

text \<open>
  \<open>REPLACE INTO hash VALUES (?, ?)\<close> with \<open>(id, buffer(hash))\<close>: the rows that clash
  with the new one on the primary key \<open>id\<close> or on the unique column \<open>hash\<close> are
  deleted, then the new row is inserted. The statement names no column; it fails with
  \<open>OperationalError\<close> when there is no table \<open>hash\<close> and when the table does not have
  two columns, as a \<open>ForeignSchema\<close> table does not.
\<close>

definition replace_into_hash :: "int \<Rightarrow> string \<Rightarrow> dbfile \<Rightarrow> error + dbfile" where
  "replace_into_hash i h f =
     (case hash_rows f of
        Inl e \<Rightarrow> Inl e
      | Inr rs \<Rightarrow>
          if \<not> in_int64 i then Inl OverflowError
          else Inr (set_hash_rows
                 (filter (\<lambda>(i', h'). i' \<noteq> i \<and> h' \<noteq> h) rs @ [(i, h)]) f))"

text \<open>\<open>cursor.fetchone()\<close>: the first row of the result, or \<open>None\<close>.\<close>

fun fetchone :: "'a list \<Rightarrow> 'a option" where
  "fetchone [] = None"
| "fetchone (x # xs) = Some x"

text \<open>\<open>SELECT id FROM hash WHERE hash=?\<close> and \<open>SELECT hash FROM hash WHERE id=?\<close>.\<close>

definition select_id_where_hash :: "string \<Rightarrow> dbfile \<Rightarrow> error + int list" where
  "select_id_where_hash h f =
     (case hash_rows f of
        Inl e \<Rightarrow> Inl e
      | Inr rs \<Rightarrow> Inr (map fst (filter (\<lambda>(i', h'). h' = h) rs)))"

definition select_hash_where_id :: "int \<Rightarrow> dbfile \<Rightarrow> error + string list" where
  "select_hash_where_id i f =
     (case hash_rows f of
        Inl e \<Rightarrow> Inl e
      | Inr rs \<Rightarrow> Inr (map snd (filter (\<lambda>(i', h'). i' = i) rs)))"

text \<open>
  \<open>CREATE TABLE hash (id INTEGER PRIMARY KEY, hash BLOB UNIQUE)\<close>. The binding commits
  before a statement that is not a SELECT, INSERT, UPDATE, DELETE or REPLACE and runs
  it outside a transaction, so the new table is in the file at once.
\<close>

definition create_table_hash :: "connection \<Rightarrow> error + connection" where
  "create_table_hash c =
     (case working c of
        Junk \<Rightarrow> Inl DatabaseError
      | Db d \<Rightarrow>
          (case hash_tbl d of
             Some t \<Rightarrow> Inl OperationalError
           | None \<Rightarrow>
               let w = Db (d\<lparr>hash_tbl := Some (HashRows [])\<rparr>)
               in Inr (c\<lparr>committed := w, working := w\<rparr>)))"

subsection \<open>\<open>HashIdStore\<close>\<close>

record HashIdStore =
  filename :: string
  db :: connection

text \<open>
  \<^verbatim>\<open>
  def ensure_hash_id_schema(db):
      cursor = db.cursor()
      try:
          cursor.execute("CREATE TABLE hash"
                         " (id INTEGER PRIMARY KEY, hash BLOB UNIQUE)")
      except (sqlite3.OperationalError, sqlite3.DatabaseError):
          cursor.close()
          db.rollback()
      else:
          cursor.close()
          db.commit()
  \<close>
\<close>

definition ensure_hash_id_schema :: "connection \<Rightarrow> error + connection" where
  "ensure_hash_id_schema c =
     (case create_table_hash c of
        Inl e \<Rightarrow>
          if is_OperationalError e \<or> is_DatabaseError e then Inr (rollback c) else Inl e
      | Inr c' \<Rightarrow> Inr (commit c'))"

text \<open>
  \<^verbatim>\<open>
  def __init__(self, filename):
      self._filename = filename
      self._db = sqlite3.connect(self._filename)
      ensure_hash_id_schema(self._db)
  \<close>
  The second argument is what is at the path \<open>filename\<close> when the store is opened.
\<close>

definition HashIdStore_init :: "string \<Rightarrow> path_state \<Rightarrow> error + HashIdStore" where
  "HashIdStore_init fname at_path =
     (case connect at_path of
        Inl e \<Rightarrow> Inl e
      | Inr c0 \<Rightarrow>
          (case ensure_hash_id_schema c0 of
             Inl e \<Rightarrow> Inl e
           | Inr c \<Rightarrow> Inr \<lparr>filename = fname, db = c\<rparr>))"

text \<open>
  A method decorated with \<open>with_cursor\<close> runs on \<open>self._db\<close>; the object comes back with
  the connection as the call left it.
\<close>

definition on_db ::
  "(connection \<Rightarrow> 'r \<times> connection) \<Rightarrow> 'a HashIdStore_scheme \<Rightarrow> 'r \<times> 'a HashIdStore_scheme" where
  "on_db m self = (case m (db self) of (r, c) \<Rightarrow> (r, self\<lparr>db := c\<rparr>))"

text \<open>
  \<^verbatim>\<open>
  @with_cursor
  def set_hash_ids(self, cursor, hash_ids):
      for hash, id in hash_ids.iteritems():
          cursor.execute("REPLACE INTO hash VALUES (?, ?)",
                         (id, buffer(hash)))
  \<close>
  The dict \<open>hash_ids\<close> is the list of its items in the order \<open>iteritems()\<close> yields
  them; its keys are distinct.
\<close>

fun set_hash_ids_body :: "(string \<times> int) list \<Rightarrow> dbfile \<Rightarrow> (error + unit) \<times> dbfile" where
  "set_hash_ids_body [] f = (Inr (), f)"
| "set_hash_ids_body ((h, i) # hash_ids) f =
     (case replace_into_hash i h f of
        Inl e \<Rightarrow> (Inl e, f)
      | Inr f' \<Rightarrow> set_hash_ids_body hash_ids f')"

definition set_hash_ids ::
  "'a HashIdStore_scheme \<Rightarrow> (string \<times> int) list \<Rightarrow> (error + unit) \<times> 'a HashIdStore_scheme" where
  "set_hash_ids self hash_ids = on_db (with_cursor (set_hash_ids_body hash_ids)) self"

text \<open>
  \<^verbatim>\<open>
  @with_cursor
  def get_hash_id(self, cursor, hash):
      cursor.execute("SELECT id FROM hash WHERE hash=?", (buffer(hash),))
      value = cursor.fetchone()
      if value:
          return value[0]
      return None
  \<close>
  \<open>value\<close> is a row, a tuple of one element, so it is true whenever there is one.
\<close>

definition get_hash_id_body :: "string \<Rightarrow> dbfile \<Rightarrow> (error + int option) \<times> dbfile" where
  "get_hash_id_body h f =
     (case select_id_where_hash h f of
        Inl e \<Rightarrow> (Inl e, f)
      | Inr rows \<Rightarrow>
          (case fetchone rows of
             Some v \<Rightarrow> (Inr (Some v), f)
           | None \<Rightarrow> (Inr None, f)))"

definition HashIdStore_get_hash_id ::
  "'a HashIdStore_scheme \<Rightarrow> string \<Rightarrow> (error + int option) \<times> 'a HashIdStore_scheme" where
  "HashIdStore_get_hash_id self h = on_db (with_cursor (get_hash_id_body h)) self"

text \<open>
  \<^verbatim>\<open>
  @with_cursor
  def get_id_hash(self, cursor, id):
      assert isinstance(id, (int, long))
      cursor.execute("SELECT hash FROM hash WHERE id=?", (id,))
      value = cursor.fetchone()
      if value:
          return str(value[0])
      return None
  \<close>
\<close>

definition get_id_hash_body :: "int \<Rightarrow> dbfile \<Rightarrow> (error + string option) \<times> dbfile" where
  "get_id_hash_body i f =
     (case select_hash_where_id i f of
        Inl e \<Rightarrow> (Inl e, f)
      | Inr rows \<Rightarrow>
          if \<not> in_int64 i then (Inl OverflowError, f)
          else
            (case fetchone rows of
               Some v \<Rightarrow> (Inr (Some v), f)
             | None \<Rightarrow> (Inr None, f)))"

definition get_id_hash ::
  "'a HashIdStore_scheme \<Rightarrow> int \<Rightarrow> (error + string option) \<times> 'a HashIdStore_scheme" where
  "get_id_hash self i = on_db (with_cursor (get_id_hash_body i)) self"

text \<open>
  \<^verbatim>\<open>
  @with_cursor
  def check_sanity(self, cursor):
      try:
          cursor.execute("SELECT id FROM hash WHERE hash=?", ("",))
      except sqlite3.DatabaseError, e:
          raise InvalidHashIdDb(self._filename)
  \<close>
\<close>

definition check_sanity_body :: "string \<Rightarrow> dbfile \<Rightarrow> (error + unit) \<times> dbfile" where
  "check_sanity_body fname f =
     (case select_id_where_hash [] f of
        Inl e \<Rightarrow> if is_DatabaseError e then (Inl (InvalidHashIdDb fname), f) else (Inl e, f)
      | Inr rows \<Rightarrow> (Inr (), f))"

definition check_sanity ::
  "'a HashIdStore_scheme \<Rightarrow> (error + unit) \<times> 'a HashIdStore_scheme" where
  "check_sanity self = on_db (with_cursor (check_sanity_body (filename self))) self"

subsection \<open>\<open>PackageStore\<close>: opening, lookaside stores\<close>

record PackageStore = HashIdStore +
  hash_id_stores :: "HashIdStore list"

definition empty_package_tables :: package_tables where
  "empty_package_tables =
     \<lparr>flag_tbl = [], available_tbl = [], available_upgrade_tbl = [], installed_tbl = [],
      hash_id_request_tbl = [], task_tbl = []\<rparr>"

text \<open>The six \<open>CREATE TABLE\<close> statements of \<open>ensure_package_schema\<close>.\<close>

definition create_package_tables :: "connection \<Rightarrow> error + connection" where
  "create_package_tables c =
     (case working c of
        Junk \<Rightarrow> Inl DatabaseError
      | Db d \<Rightarrow>
          (case package_tbls d of
             Some p \<Rightarrow> Inl OperationalError
           | None \<Rightarrow>
               let w = Db (d\<lparr>package_tbls := Some empty_package_tables\<rparr>)
               in Inr (c\<lparr>committed := w, working := w\<rparr>)))"

text \<open>
  \<^verbatim>\<open>
  def ensure_package_schema(db):
      cursor = db.cursor()
      try:
          cursor.execute("CREATE TABLE flag" ...)
          ...
          cursor.execute("CREATE TABLE task" ...)
      except sqlite3.OperationalError:
          cursor.close()
          db.rollback()
      else:
          cursor.close()
          db.commit()
  \<close>
\<close>

definition ensure_package_schema :: "connection \<Rightarrow> error + connection" where
  "ensure_package_schema c =
     (case create_package_tables c of
        Inl e \<Rightarrow> if is_OperationalError e then Inr (rollback c) else Inl e
      | Inr c' \<Rightarrow> Inr (commit c'))"

text \<open>
  \<^verbatim>\<open>
  def __init__(self, filename):
      super(PackageStore, self).__init__(filename)
      self._hash_id_stores = []
      ensure_package_schema(self._db)
  \<close>
\<close>

definition PackageStore_init :: "string \<Rightarrow> path_state \<Rightarrow> error + PackageStore" where
  "PackageStore_init fname at_path =
     (case HashIdStore_init fname at_path of
        Inl e \<Rightarrow> Inl e
      | Inr s \<Rightarrow>
          (case ensure_package_schema (db s) of
             Inl e \<Rightarrow> Inl e
           | Inr c \<Rightarrow> Inr \<lparr>filename = fname, db = c, hash_id_stores = []\<rparr>))"

text \<open>
  \<^verbatim>\<open>
  def add_hash_id_db(self, filename):
      hash_id_store = HashIdStore(filename)

      try:
          hash_id_store.check_sanity()
      except InvalidHashIdDb, e:
          # propagate the error
          raise e

      self._hash_id_stores.append(hash_id_store)
  \<close>
  The third argument is what is at the path \<open>filename\<close> before the call.
\<close>

definition add_hash_id_db ::
  "PackageStore \<Rightarrow> string \<Rightarrow> path_state \<Rightarrow> (error + unit) \<times> PackageStore" where
  "add_hash_id_db self fname at_path =
     (case HashIdStore_init fname at_path of
        Inl e \<Rightarrow> (Inl e, self)
      | Inr hash_id_store \<Rightarrow>
          (case check_sanity hash_id_store of
             (Inl e, hash_id_store') \<Rightarrow> (Inl e, self)
           | (Inr u, hash_id_store') \<Rightarrow>
               (Inr (), self\<lparr>hash_id_stores := hash_id_stores self @ [hash_id_store']\<rparr>)))"

text \<open>
  \<^verbatim>\<open>
  def has_hash_id_db(self):
      return len(self._hash_id_stores) > 0
  \<close>
\<close>

definition has_hash_id_db :: "PackageStore \<Rightarrow> bool" where
  "has_hash_id_db self \<longleftrightarrow> length (hash_id_stores self) > 0"

text \<open>The truth value Python gives to an id or \<open>None\<close>: \<open>None\<close> and \<open>0\<close> are false.\<close>

fun truth :: "int option \<Rightarrow> bool" where
  "truth None = False"
| "truth (Some i) = (i \<noteq> 0)"

text \<open>
  \<^verbatim>\<open>
  def get_hash_id(self, hash):
      assert isinstance(hash, basestring)

      # Check if we can find the hash=>id mapping in the lookaside stores
      for store in self._hash_id_stores:
          id = store.get_hash_id(hash)
          if id:
              return id

      # Fall back to the locally-populated db
      return HashIdStore.get_hash_id(self, hash)
  \<close>
  The loop over the lookaside stores gives the exception a store raised, the id it
  returned from, or \<open>None\<close> when it ran to its end.
\<close>

fun lookaside_get_hash_id ::
  "string \<Rightarrow> HashIdStore list \<Rightarrow> (error + int option) \<times> HashIdStore list" where
  "lookaside_get_hash_id h [] = (Inr None, [])"
| "lookaside_get_hash_id h (store # stores) =
     (case HashIdStore_get_hash_id store h of
        (Inl e, store') \<Rightarrow> (Inl e, store' # stores)
      | (Inr i, store') \<Rightarrow>
          if truth i then (Inr i, store' # stores)
          else (case lookaside_get_hash_id h stores of
                  (r, stores') \<Rightarrow> (r, store' # stores')))"

definition PackageStore_get_hash_id ::
  "PackageStore \<Rightarrow> string \<Rightarrow> (error + int option) \<times> PackageStore" where
  "PackageStore_get_hash_id self h =
     (case lookaside_get_hash_id h (hash_id_stores self) of
        (Inl e, stores) \<Rightarrow> (Inl e, self\<lparr>hash_id_stores := stores\<rparr>)
      | (Inr (Some i), stores) \<Rightarrow> (Inr (Some i), self\<lparr>hash_id_stores := stores\<rparr>)
      | (Inr None, stores) \<Rightarrow> HashIdStore_get_hash_id (self\<lparr>hash_id_stores := stores\<rparr>) h)"

subsection \<open>SQL statements on the package tables\<close>

definition package_tables_of :: "dbfile \<Rightarrow> error + package_tables" where
  "package_tables_of f =
     (case f of
        Junk \<Rightarrow> Inl DatabaseError
      | Db d \<Rightarrow>
          (case package_tbls d of
             None \<Rightarrow> Inl OperationalError
           | Some p \<Rightarrow> Inr p))"

definition set_package_tables :: "package_tables \<Rightarrow> dbfile \<Rightarrow> dbfile" where
  "set_package_tables p f =
     (case f of Junk \<Rightarrow> Junk | Db d \<Rightarrow> Db (d\<lparr>package_tbls := Some p\<rparr>))"

text \<open>
  The id SQLite gives to a row inserted without one (\<open>cursor.lastrowid\<close>): 1 in an
  empty table, otherwise one more than the largest id in the table. (When the largest
  id is \<open>2^63 - 1\<close> SQLite picks an unused id at random; no such id arises here, where
  all ids of these tables are assigned by the engine.)
\<close>

definition next_rowid :: "int list \<Rightarrow> int" where
  "next_rowid ids = (if ids = [] then 1 else Max (set ids) + 1)"

subsection \<open>Tasks\<close>

text \<open>A \<open>PackageTask\<close>: its id and the fields read from its row when it is built. Its
  \<open>_db\<close> is the connection of the store, which the functions below take as an
  argument.\<close>

record PackageTask =
  task_id :: int
  queue :: string
  timestamp :: real
  data :: pyvalue

text \<open>
  \<^verbatim>\<open>
  def __init__(self, db, id):
      self._db = db
      self.id = id

      cursor = db.cursor()
      try:
          cursor.execute("SELECT queue, timestamp, data FROM task "
                         "WHERE id=?", (id,))
          row = cursor.fetchone()
      finally:
          cursor.close()

      self.queue = row[0]
      self.timestamp = row[1]
      self.data = bpickle.loads(str(row[2]))
  \<close>
  The first argument is the content the connection works on.
\<close>

definition PackageTask_init :: "dbfile \<Rightarrow> int \<Rightarrow> error + PackageTask" where
  "PackageTask_init f i =
     (case package_tables_of f of
        Inl e \<Rightarrow> Inl e
      | Inr p \<Rightarrow>
          (case fetchone (filter (\<lambda>r. task_row_id r = i) (task_tbl p)) of
             None \<Rightarrow> Inl TypeError
           | Some row \<Rightarrow>
               Inr \<lparr>task_id = i, queue = task_row_queue row,
                    timestamp = task_row_timestamp row,
                    data = bpickle_loads (task_row_data row)\<rparr>))"

text \<open>
  \<^verbatim>\<open>
  @with_cursor
  def add_task(self, cursor, queue, data):
      data = bpickle.dumps(data)
      cursor.execute("INSERT INTO task (queue, timestamp, data) "
                     "VALUES (?,?,?)", (queue, time.time(), buffer(data)))
      return PackageTask(self._db, cursor.lastrowid)
  \<close>
  \<open>now\<close> is what \<open>time.time()\<close> returns during the call.
\<close>

definition add_task_body ::
  "string \<Rightarrow> pyvalue \<Rightarrow> real \<Rightarrow> dbfile \<Rightarrow> (error + PackageTask) \<times> dbfile" where
  "add_task_body q d now f =
     (case package_tables_of f of
        Inl e \<Rightarrow> (Inl e, f)
      | Inr p \<Rightarrow>
          let lastrowid = next_rowid (map task_row_id (task_tbl p));
              row = \<lparr>task_row_id = lastrowid, task_row_queue = q,
                     task_row_timestamp = now, task_row_data = bpickle_dumps d\<rparr>;
              f' = set_package_tables (p\<lparr>task_tbl := task_tbl p @ [row]\<rparr>) f
          in (case PackageTask_init f' lastrowid of
                Inl e \<Rightarrow> (Inl e, f')
              | Inr task \<Rightarrow> (Inr task, f')))"

definition add_task ::
  "PackageStore \<Rightarrow> string \<Rightarrow> pyvalue \<Rightarrow> real \<Rightarrow> (error + PackageTask) \<times> PackageStore" where
  "add_task self q d now = on_db (with_cursor (add_task_body q d now)) self"

text \<open>
  \<open>SELECT id FROM task WHERE queue=? ORDER BY timestamp\<close>: the rows of the queue,
  sorted by timestamp. The statement names no second key; SQLite scans the table in
  the order of the ids and its sorter keeps rows with equal keys in the order they
  came in, so rows with equal timestamps stay in the order of the scan (\<open>sort_key\<close> is
  a stable sort).
\<close>

definition select_task_ids :: "string \<Rightarrow> package_tables \<Rightarrow> int list" where
  "select_task_ids q p =
     map task_row_id
       (sort_key task_row_timestamp (filter (\<lambda>r. task_row_queue r = q) (task_tbl p)))"

text \<open>
  \<^verbatim>\<open>
  @with_cursor
  def get_next_task(self, cursor, queue):
      cursor.execute("SELECT id FROM task WHERE queue=? ORDER BY timestamp",
                     (queue,))
      row = cursor.fetchone()
      if row:
          return PackageTask(self._db, row[0])
      return None
  \<close>
\<close>

definition get_next_task_body ::
  "string \<Rightarrow> dbfile \<Rightarrow> (error + PackageTask option) \<times> dbfile" where
  "get_next_task_body q f =
     (case package_tables_of f of
        Inl e \<Rightarrow> (Inl e, f)
      | Inr p \<Rightarrow>
          (case fetchone (select_task_ids q p) of
             Some i \<Rightarrow>
               (case PackageTask_init f i of
                  Inl e \<Rightarrow> (Inl e, f)
                | Inr task \<Rightarrow> (Inr (Some task), f))
           | None \<Rightarrow> (Inr None, f)))"

definition get_next_task ::
  "PackageStore \<Rightarrow> string \<Rightarrow> (error + PackageTask option) \<times> PackageStore" where
  "get_next_task self q = on_db (with_cursor (get_next_task_body q)) self"

text \<open>
  \<^verbatim>\<open>
  @with_cursor
  def clear_tasks(self, cursor, except_tasks=()):
      cursor.execute("DELETE FROM task WHERE id NOT IN (%s)" %
                     ",".join([str(task.id) for task in except_tasks]))
  \<close>
\<close>

definition clear_tasks_body :: "PackageTask list \<Rightarrow> dbfile \<Rightarrow> (error + unit) \<times> dbfile" where
  "clear_tasks_body except_tasks f =
     (case package_tables_of f of
        Inl e \<Rightarrow> (Inl e, f)
      | Inr p \<Rightarrow>
          (Inr (),
           set_package_tables
             (p\<lparr>task_tbl :=
                  filter (\<lambda>r. \<not> task_row_id r \<notin> set (map task_id except_tasks)) (task_tbl p)\<rparr>)
             f))"

definition clear_tasks ::
  "PackageStore \<Rightarrow> PackageTask list \<Rightarrow> (error + unit) \<times> PackageStore" where
  "clear_tasks self except_tasks = on_db (with_cursor (clear_tasks_body except_tasks)) self"

text \<open>
  \<^verbatim>\<open>
  @with_cursor
  def remove(self, cursor):
      cursor.execute("DELETE FROM task WHERE id=?", (self.id,))
  \<close>
  of \<open>PackageTask\<close>; \<open>self._db\<close> is the connection of the store the task came from.
\<close>

definition PackageTask_remove_body :: "PackageTask \<Rightarrow> dbfile \<Rightarrow> (error + unit) \<times> dbfile" where
  "PackageTask_remove_body self f =
     (case package_tables_of f of
        Inl e \<Rightarrow> (Inl e, f)
      | Inr p \<Rightarrow>
          (Inr (),
           set_package_tables
             (p\<lparr>task_tbl := filter (\<lambda>r. \<not> task_row_id r = task_id self) (task_tbl p)\<rparr>) f))"

definition PackageTask_remove ::
  "PackageTask \<Rightarrow> PackageStore \<Rightarrow> (error + unit) \<times> PackageStore" where
  "PackageTask_remove self store = on_db (with_cursor (PackageTask_remove_body self)) store"

subsection \<open>Hash id requests\<close>

text \<open>A \<open>HashIDRequest\<close> holds its id; its other attributes are read from the row on
  every access.\<close>

datatype HashIDRequest = HashIDRequest (request_id: int)

text \<open>
  \<^verbatim>\<open>
  @with_cursor
  def add_hash_id_request(self, cursor, hashes):
      hashes = list(hashes)
      cursor.execute("INSERT INTO hash_id_request (hashes, timestamp)"
                     " VALUES (?,?)",
                     (buffer(bpickle.dumps(hashes)), time.time()))
      return HashIDRequest(self._db, cursor.lastrowid)
  \<close>
\<close>

definition add_hash_id_request_body ::
  "string list \<Rightarrow> real \<Rightarrow> dbfile \<Rightarrow> (error + HashIDRequest) \<times> dbfile" where
  "add_hash_id_request_body hashes now f =
     (case package_tables_of f of
        Inl e \<Rightarrow> (Inl e, f)
      | Inr p \<Rightarrow>
          let lastrowid = next_rowid (map request_row_id (hash_id_request_tbl p));
              row = \<lparr>request_row_id = lastrowid, request_row_timestamp = now,
                     request_row_message_id = None,
                     request_row_hashes = bpickle_dumps (PyList (map PyStr hashes))\<rparr>
          in (Inr (HashIDRequest lastrowid),
              set_package_tables
                (p\<lparr>hash_id_request_tbl := hash_id_request_tbl p @ [row]\<rparr>) f))"

definition add_hash_id_request ::
  "PackageStore \<Rightarrow> string list \<Rightarrow> real \<Rightarrow> (error + HashIDRequest) \<times> PackageStore" where
  "add_hash_id_request self hashes now =
     on_db (with_cursor (add_hash_id_request_body hashes now)) self"

text \<open>
  \<^verbatim>\<open>
  @with_cursor
  def iter_hash_id_requests(self, cursor):
      cursor.execute("SELECT id FROM hash_id_request")
      for row in cursor.fetchall():
          yield HashIDRequest(self._db, row[0])
  \<close>
  The method has a \<open>yield\<close>, so calling it runs none of its body: the call returns a
  generator that has not started (\<open>Created\<close>), and \<open>with_cursor\<close> closes the cursor and
  commits. The body runs when the generator is advanced: the first \<open>next\<close> executes the
  \<open>SELECT\<close> on the cursor that \<open>with_cursor\<close> has closed, fetches all rows and yields
  the first; the generator is then suspended in the loop with the rows that are left
  (\<open>Suspended\<close>). After the last row, or after an exception, it is \<open>Finished\<close>.
\<close>

datatype generator = Created | Suspended "int list" | Finished

definition iter_hash_id_requests_body :: "dbfile \<Rightarrow> (error + generator) \<times> dbfile" where
  "iter_hash_id_requests_body f = (Inr Created, f)"

definition iter_hash_id_requests ::
  "PackageStore \<Rightarrow> (error + generator) \<times> PackageStore" where
  "iter_hash_id_requests self = on_db (with_cursor iter_hash_id_requests_body) self"

text \<open>\<open>SELECT id FROM hash_id_request\<close>, and one round of the \<open>for\<close> loop over the rows
  fetched: \<open>None\<close> stands for \<open>StopIteration\<close>.\<close>

definition select_request_ids :: "dbfile \<Rightarrow> error + int list" where
  "select_request_ids f =
     (case package_tables_of f of
        Inl e \<Rightarrow> Inl e
      | Inr p \<Rightarrow> Inr (map request_row_id (hash_id_request_tbl p)))"

fun yield_next :: "int list \<Rightarrow> (error + HashIDRequest option) \<times> generator" where
  "yield_next [] = (Inr None, Finished)"
| "yield_next (i # rows) = (Inr (Some (HashIDRequest i)), Suspended rows)"

text \<open>
  \<open>next(g)\<close> on the generator. \<open>f\<close> is the content the connection works on at that
  moment. Whether the sqlite3 binding lets a closed cursor execute a statement depends
  on its version (where it does not, \<open>execute\<close> raises \<open>ProgrammingError\<close>); the binding
  is not part of the sources, so this is the parameter \<open>closed_cursor_executes\<close>.
\<close>

fun generator_next ::
  "bool \<Rightarrow> dbfile \<Rightarrow> generator \<Rightarrow> (error + HashIDRequest option) \<times> generator" where
  "generator_next closed_cursor_executes f Created =
     (if \<not> closed_cursor_executes then (Inl ProgrammingError, Finished)
      else (case select_request_ids f of
              Inl e \<Rightarrow> (Inl e, Finished)
            | Inr rows \<Rightarrow> yield_next rows))"
| "generator_next closed_cursor_executes f (Suspended rows) = yield_next rows"
| "generator_next closed_cursor_executes f Finished = (Inr None, Finished)"

text \<open>\<open>list(g)\<close>: the generator advanced until it stops, with no other use of the
  connection in between.\<close>

function list_of_generator :: "bool \<Rightarrow> dbfile \<Rightarrow> generator \<Rightarrow> error + HashIDRequest list" where
  "list_of_generator closed_cursor_executes f g =
     (case generator_next closed_cursor_executes f g of
        (Inl e, g') \<Rightarrow> Inl e
      | (Inr None, g') \<Rightarrow> Inr []
      | (Inr (Some request), g') \<Rightarrow>
          (case list_of_generator closed_cursor_executes f g' of
             Inl e \<Rightarrow> Inl e
           | Inr requests \<Rightarrow> Inr (request # requests)))"
  by pat_completeness auto

subsection \<open>The task handler: draining the queue\<close>

text \<open>
  Modelled from the spec: \<open>PackageTaskHandler.handle_tasks\<close>
  (\<open>landscape/package/taskhandler.py\<close>) is not among the sources; only its tests are.
  The spec (4.4, DRAINING): repeatedly fetch the oldest task for the handler's queue
  name; if none remains, transition to DONE. Otherwise invoke the per-task operation
  with the task handle. On success, remove the task and continue to the next. On
  failure, stop draining immediately (the failing task is not removed) and transition
  to FAILED, surfacing the failure to the run's caller; no subsequent queued tasks are
  attempted this run. An exception of the store propagates (7, propagation policy).

  The per-task operation is a function from the task to \<open>None\<close> (success) or to the
  failure it settles with. The result of a run is the state it ends in, the tasks the
  operation was invoked on, in order, and the store.
\<close>

datatype 'x run_state = DONE | FAILED 'x | RAISED error

function handle_tasks ::
  "(PackageTask \<Rightarrow> 'x option) \<Rightarrow> string \<Rightarrow> PackageStore \<Rightarrow>
     'x run_state \<times> PackageTask list \<times> PackageStore" where
  "handle_tasks handle_task queue_name store =
     (case get_next_task store queue_name of
        (Inl e, store1) \<Rightarrow> (RAISED e, [], store1)
      | (Inr None, store1) \<Rightarrow> (DONE, [], store1)
      | (Inr (Some task), store1) \<Rightarrow>
          (case handle_task task of
             Some failure \<Rightarrow> (FAILED failure, [task], store1)
           | None \<Rightarrow>
               (case PackageTask_remove task store1 of
                  (Inl e, store2) \<Rightarrow> (RAISED e, [task], store2)
                | (Inr u, store2) \<Rightarrow>
                    (case handle_tasks handle_task queue_name store2 of
                       (state, attempted, store3) \<Rightarrow> (state, task # attempted, store3)))))"
  by pat_completeness auto

text \<open>The measures of the two loops: the rows the generator has still to yield, and
  the rows of the task table.\<close>

definition generator_rows :: "bool \<times> dbfile \<times> generator \<Rightarrow> nat" where
  "generator_rows x =
     (case x of
        (c, f, Created) \<Rightarrow>
          (case select_request_ids f of Inl e \<Rightarrow> 0 | Inr rows \<Rightarrow> Suc (length rows))
      | (c, f, Suspended rows) \<Rightarrow> length rows
      | (c, f, Finished) \<Rightarrow> 0)"

definition task_count :: "PackageStore \<Rightarrow> nat" where
  "task_count store =
     (case package_tables_of (working (db store)) of
        Inl e \<Rightarrow> 0
      | Inr p \<Rightarrow> length (task_tbl p))"

subsection \<open>Auxiliary notions for the proofs, and example stores\<close>

text \<open>
  \<open>sole_row i h rs\<close>: the row \<open>(i, h)\<close> is in the table, and no other row has the id
  \<open>i\<close> or the hash \<open>h\<close>.
\<close>

definition sole_row :: "int \<Rightarrow> string \<Rightarrow> (int \<times> string) list \<Rightarrow> bool" where
  "sole_row i h rs \<longleftrightarrow>
     filter (\<lambda>(i', h'). h' = h) rs = [(i, h)] \<and> filter (\<lambda>(i', h'). i' = i) rs = [(i, h)]"

text \<open>A connection with no uncommitted change.\<close>

definition clean :: "connection \<Rightarrow> bool" where
  "clean c \<longleftrightarrow> working c = committed c"

text \<open>What a rollback leaves of a connection \<open>c\<close>: the file is as it was, and the
  connection works on the file.\<close>

definition rolled_back :: "connection \<Rightarrow> connection \<Rightarrow> bool" where
  "rolled_back c c' \<longleftrightarrow> committed c' = committed c \<and> working c' = committed c"

text \<open>A file that holds an empty table \<open>hash\<close>, and a store opened on it.\<close>

definition example_hash_db :: dbfile where
  "example_hash_db = Db \<lparr>hash_tbl = Some (HashRows []), package_tbls = None\<rparr>"

definition example_hash_id_store :: HashIdStore where
  "example_hash_id_store = \<lparr>filename = ''hash-id-db'', db = connection_on example_hash_db\<rparr>"

text \<open>
  Two lookaside files that give the hash \<open>h\<close> the ids 0 and 7, and a store whose own
  file gives it the id 5 and which has no lookaside store attached.
\<close>

definition lookaside_zero_db :: dbfile where
  "lookaside_zero_db = Db \<lparr>hash_tbl = Some (HashRows [(0, ''h'')]), package_tbls = None\<rparr>"

definition lookaside_seven_db :: dbfile where
  "lookaside_seven_db = Db \<lparr>hash_tbl = Some (HashRows [(7, ''h'')]), package_tbls = None\<rparr>"

definition example_package_db :: dbfile where
  "example_package_db =
     Db \<lparr>hash_tbl = Some (HashRows [(5, ''h'')]), package_tbls = Some empty_package_tables\<rparr>"

definition example_store :: PackageStore where
  "example_store =
     \<lparr>filename = ''database'', db = connection_on example_package_db, hash_id_stores = []\<rparr>"

text \<open>The task handle that \<open>PackageTask.__init__\<close> builds from a row.\<close>

definition task_of_row :: "task_row \<Rightarrow> PackageTask" where
  "task_of_row r =
     \<lparr>task_id = task_row_id r, queue = task_row_queue r, timestamp = task_row_timestamp r,
      data = bpickle_loads (task_row_data r)\<rparr>"

text \<open>The rows of a queue in the order \<open>get_next_task\<close> selects them.\<close>

definition queue_rows :: "string \<Rightarrow> package_tables \<Rightarrow> task_row list" where
  "queue_rows q p =
     sort_key task_row_timestamp (filter (\<lambda>r. task_row_queue r = q) (task_tbl p))"

text \<open>
  A store with three tasks in the queue \<open>default\<close>, the second and third enqueued at
  the same time and before the first, and one task in the queue \<open>other\<close>.
\<close>

definition example_task_rows :: "task_row list" where
  "example_task_rows =
     [\<lparr>task_row_id = 1, task_row_queue = ''default'', task_row_timestamp = 20,
       task_row_data = Pickled (PyInt 0)\<rparr>,
      \<lparr>task_row_id = 2, task_row_queue = ''default'', task_row_timestamp = 10,
       task_row_data = Pickled (PyInt 1)\<rparr>,
      \<lparr>task_row_id = 3, task_row_queue = ''default'', task_row_timestamp = 10,
       task_row_data = Pickled (PyInt 2)\<rparr>,
      \<lparr>task_row_id = 4, task_row_queue = ''other'', task_row_timestamp = 5,
       task_row_data = Pickled (PyInt 3)\<rparr>]"

definition example_task_store :: PackageStore where
  "example_task_store =
     \<lparr>filename = ''database'',
      db = connection_on (Db \<lparr>hash_tbl = Some (HashRows []),
             package_tbls = Some (empty_package_tables\<lparr>task_tbl := example_task_rows\<rparr>)\<rparr>),
      hash_id_stores = []\<rparr>"

text \<open>
  The scenario of the spec: the tasks with the payloads 0, 1 and 2 enqueued in this
  order, and a per-task operation that fails for the payload 1.
\<close>

definition example_drain_store :: PackageStore where
  "example_drain_store =
     snd (add_task (snd (add_task (snd (add_task example_store
       ''default'' (PyInt 0) 1)) ''default'' (PyInt 1) 2)) ''default'' (PyInt 2) 3)"

definition example_handle_task :: "PackageTask \<Rightarrow> string option" where
  "example_handle_task task = (if data task = PyInt 1 then Some ''MyException'' else None)"

text \<open>
  A store with one hash id request, and the same store after \<open>iter_hash_id_requests\<close>
  was called on it and a second request was added.
\<close>

definition example_request_store :: PackageStore where
  "example_request_store = snd (add_hash_id_request example_store [''h1''] 1)"

definition example_request_store_later :: PackageStore where
  "example_request_store_later =
     snd (add_hash_id_request (snd (iter_hash_id_requests example_request_store)) [''h2''] 2)"

section \<open>Properties\<close>

subsection \<open>Termination of the loops\<close>

termination list_of_generator
proof (relation "measure generator_rows")
  show "wf (measure generator_rows)" by simp
next
  fix closed_cursor_executes :: bool and f g x1 x2 x2a x2b
  assume a: "(x1, x2) = generator_next closed_cursor_executes f g" "x1 = Inr x2a" "x2a = Some x2b"
  then have "generator_next closed_cursor_executes f g = (Inr (Some x2b), x2)" by simp
  then have "generator_rows (closed_cursor_executes, f, x2) < generator_rows (closed_cursor_executes, f, g)"
  proof (cases g)
    case Created
    assume n: "generator_next closed_cursor_executes f g = (Inr (Some x2b), x2)"
    show ?thesis
    proof (cases "select_request_ids f")
      case (Inl e)
      with n Created show ?thesis by (simp split: if_splits)
    next
      case (Inr rows)
      with n Created show ?thesis
        by (cases rows) (auto simp: generator_rows_def split: if_splits)
    qed
  next
    case (Suspended rows)
    assume "generator_next closed_cursor_executes f g = (Inr (Some x2b), x2)"
    with Suspended show ?thesis by (cases rows) (auto simp: generator_rows_def)
  next
    case Finished
    assume "generator_next closed_cursor_executes f g = (Inr (Some x2b), x2)"
    with Finished show ?thesis by simp
  qed
  then show "((closed_cursor_executes, f, x2), closed_cursor_executes, f, g) \<in> measure generator_rows"
    by simp
qed

subsection \<open>Transactions\<close>

lemma with_cursor_Inl:
  "with_cursor m c = (Inl e, c') \<Longrightarrow>
     (\<exists>w. m (working c) = (Inl e, w)) \<and> committed c' = committed c \<and> working c' = committed c"
  by (auto simp: with_cursor_def rollback_def commit_def split: prod.splits sum.splits)

lemma with_cursor_Inr:
  "with_cursor m c = (Inr v, c') \<Longrightarrow>
     m (working c) = (Inr v, committed c') \<and> working c' = committed c'"
  by (auto simp: with_cursor_def rollback_def commit_def split: prod.splits sum.splits)

lemma on_db_result:
  "on_db m self = (r, self') \<Longrightarrow> m (db self) = (r, db self') \<and> self' = self\<lparr>db := db self'\<rparr>"
  by (auto simp: on_db_def split: prod.splits)

lemma filter_none: "(\<forall>x\<in>set xs. \<not> P x) \<Longrightarrow> filter P xs = []"
  by (induction xs) auto

lemma sole_row_replace:
  "sole_row i h (filter (\<lambda>(i', h'). i' \<noteq> i \<and> h' \<noteq> h) rs @ [(i, h)])"
  unfolding sole_row_def by (auto intro!: filter_none)

lemma sole_row_kept:
  assumes "sole_row i h rs" "i2 \<noteq> i" "h2 \<noteq> h"
  shows "sole_row i h (filter (\<lambda>(i', h'). i' \<noteq> i2 \<and> h' \<noteq> h2) rs @ [(i2, h2)])"
proof -
  let ?Q = "\<lambda>(i', h'). i' \<noteq> i2 \<and> h' \<noteq> h2"
  have comm: "filter P (filter ?Q rs) = filter ?Q (filter P rs)" for P
    by (induction rs) auto
  have "filter (\<lambda>(i', h'). h' = h) (filter ?Q rs) = [(i, h)]"
    "filter (\<lambda>(i', h'). i' = i) (filter ?Q rs) = [(i, h)]"
    using assms unfolding sole_row_def comm by simp_all
  with assms(2,3) show ?thesis
    unfolding sole_row_def by simp
qed

lemma hash_rows_set_hash_rows:
  "hash_rows f = Inr rs \<Longrightarrow> hash_rows (set_hash_rows rs' f) = Inr rs'"
  by (auto simp: hash_rows_def set_hash_rows_def split: dbfile.splits option.splits hash_table.splits)

lemma replace_into_hash_Inr:
  "hash_rows f = Inr rs \<Longrightarrow> in_int64 i \<Longrightarrow>
   \<exists>f'. replace_into_hash i h f = Inr f' \<and>
        hash_rows f' = Inr (filter (\<lambda>(i', h'). i' \<noteq> i \<and> h' \<noteq> h) rs @ [(i, h)])"
  by (simp add: replace_into_hash_def hash_rows_set_hash_rows)

lemma replace_into_hash_cases:
  "hash_rows f = Inr rs \<Longrightarrow> replace_into_hash i h f = Inr f' \<Longrightarrow>
        hash_rows f' = Inr (filter (\<lambda>(i', h'). i' \<noteq> i \<and> h' \<noteq> h) rs @ [(i, h)])"
  by (auto simp add: replace_into_hash_def hash_rows_set_hash_rows split: if_splits)

lemma set_hash_ids_body_keeps:
  "sole_row i h rs \<Longrightarrow> hash_rows f = Inr rs \<Longrightarrow> h \<notin> fst ` set d \<Longrightarrow> i \<notin> snd ` set d \<Longrightarrow>
   set_hash_ids_body d f = (r, f') \<Longrightarrow> \<exists>rs'. hash_rows f' = Inr rs' \<and> sole_row i h rs'"
proof (induction d arbitrary: f rs)
  case Nil
  then show ?case by auto
next
  case (Cons p d)
  obtain h2 i2 where p: "p = (h2, i2)" by (cases p)
  show ?case
  proof (cases "replace_into_hash i2 h2 f")
    case (Inl e)
    with Cons.prems p show ?thesis by auto
  next
    case (Inr f2)
    from Cons.prems p have ne: "i2 \<noteq> i" "h2 \<noteq> h" by auto
    from replace_into_hash_cases[OF Cons.prems(2) Inr]
    have hr: "hash_rows f2 = Inr (filter (\<lambda>(i', h'). i' \<noteq> i2 \<and> h' \<noteq> h2) rs @ [(i2, h2)])" .
    have sr: "sole_row i h (filter (\<lambda>(i', h'). i' \<noteq> i2 \<and> h' \<noteq> h2) rs @ [(i2, h2)])"
      using sole_row_kept[OF Cons.prems(1) ne] .
    from Cons.prems p Inr have "set_hash_ids_body d f2 = (r, f')" by simp
    with Cons.IH[OF sr hr] Cons.prems show ?thesis by auto
  qed
qed

lemma set_hash_ids_body_stores:
  "hash_rows f = Inr rs \<Longrightarrow> distinct (map fst d) \<Longrightarrow> distinct (map snd d) \<Longrightarrow>
   \<forall>(h, i)\<in>set d. in_int64 i \<Longrightarrow>
   \<exists>f' rs'. set_hash_ids_body d f = (Inr (), f') \<and> hash_rows f' = Inr rs' \<and>
      (\<forall>(h, i)\<in>set d. sole_row i h rs')"
proof (induction d arbitrary: f rs)
  case Nil
  then show ?case by auto
next
  case (Cons p d)
  obtain h2 i2 where p: "p = (h2, i2)" by (cases p)
  from Cons.prems p have in64: "in_int64 i2" by auto
  from replace_into_hash_Inr[OF Cons.prems(1) in64, of h2]
  obtain f2 where f2: "replace_into_hash i2 h2 f = Inr f2"
    and hr: "hash_rows f2 = Inr (filter (\<lambda>(i', h'). i' \<noteq> i2 \<and> h' \<noteq> h2) rs @ [(i2, h2)])"
    by blast
  from Cons.prems p have d: "distinct (map fst d)" "distinct (map snd d)"
    "\<forall>(h, i)\<in>set d. in_int64 i" by auto
  from Cons.IH[OF hr d] obtain f' rs' where
    run: "set_hash_ids_body d f2 = (Inr (), f')" and hr': "hash_rows f' = Inr rs'"
    and rest: "\<forall>(h, i)\<in>set d. sole_row i h rs'" by blast
  from Cons.prems p have fresh: "h2 \<notin> fst ` set d" "i2 \<notin> snd ` set d" by auto
  from set_hash_ids_body_keeps[OF sole_row_replace hr fresh run] hr'
  have "sole_row i2 h2 rs'" by auto
  with run hr' rest f2 p show ?case by auto
qed

lemma with_cursor_clean: "with_cursor m c = (r, c') \<Longrightarrow> clean c'"
  by (auto simp: with_cursor_def rollback_def commit_def clean_def split: prod.splits sum.splits)

lemma with_cursor_read:
  "clean c \<Longrightarrow> m (working c) = (Inr v, working c) \<Longrightarrow> with_cursor m c = (Inr v, c)"
  by (simp add: with_cursor_def commit_def clean_def)

lemma get_hash_id_sole:
  assumes "clean (db self)" "hash_rows (working (db self)) = Inr rs" "sole_row i h rs"
  shows "HashIdStore_get_hash_id self h = (Inr (Some i), self)"
proof -
  have "get_hash_id_body h (working (db self)) = (Inr (Some i), working (db self))"
    using assms(2,3) by (simp add: get_hash_id_body_def select_id_where_hash_def sole_row_def)
  with assms(1) have "with_cursor (get_hash_id_body h) (db self) = (Inr (Some i), db self)"
    by (rule with_cursor_read)
  then show ?thesis
    by (simp add: HashIdStore_get_hash_id_def on_db_def)
qed

lemma get_id_hash_sole:
  assumes "clean (db self)" "hash_rows (working (db self)) = Inr rs" "sole_row i h rs" "in_int64 i"
  shows "get_id_hash self i = (Inr (Some h), self)"
proof -
  have "get_id_hash_body i (working (db self)) = (Inr (Some h), working (db self))"
    using assms(2,3,4) by (simp add: get_id_hash_body_def select_hash_where_id_def sole_row_def)
  with assms(1) have "with_cursor (get_id_hash_body i) (db self) = (Inr (Some h), db self)"
    by (rule with_cursor_read)
  then show ?thesis
    by (simp add: get_id_hash_def on_db_def)
qed

lemma set_hash_ids_result:
  "set_hash_ids self d = (r, self') \<Longrightarrow>
     with_cursor (set_hash_ids_body d) (db self) = (r, db self') \<and> clean (db self')"
  by (auto simp: set_hash_ids_def dest!: on_db_result dest: with_cursor_clean)

lemmas hash_eval = connect_def connection_on_def
  replace_into_hash_def hash_rows_def set_hash_rows_def in_int64_def
  set_hash_ids_def on_db_def with_cursor_def rollback_def commit_def
  HashIdStore_get_hash_id_def get_hash_id_body_def select_id_where_hash_def
  get_id_hash_def get_id_hash_body_def select_hash_where_id_def

lemma on_db_with_cursor_Inl:
  assumes "on_db (with_cursor m) s = (Inl e, s')"
  shows "rolled_back (db s) (db s')"
proof -
  from assms have "with_cursor m (db s) = (Inl e, db s')" by (auto dest: on_db_result)
  from with_cursor_Inl[OF this] show ?thesis by (simp add: rolled_back_def)
qed

text \<open>
  Claim C7. A method under \<open>with_cursor\<close> is atomic. If the method raises, the
  exception is raised again and the connection is rolled back: the file is as before
  the call, and the connection sees the file, not the statements the method had run. If
  the method returns, its result is returned and the file holds what its statements
  wrote. In particular a \<open>set_hash_ids\<close> that raises, at whichever pair, leaves the
  file as it was, and so does every other writing method of the store when it raises.
\<close>

theorem with_cursor_atomic:
  fixes self :: "'a HashIdStore_scheme" and store :: PackageStore
  shows "(\<forall>e c'. with_cursor m c = (Inl e, c') \<longrightarrow>
      (\<exists>w. m (working c) = (Inl e, w)) \<and> rolled_back c c') \<and>
   (\<forall>v c'. with_cursor m c = (Inr v, c') \<longrightarrow>
      m (working c) = (Inr v, committed c') \<and> working c' = committed c') \<and>
   (\<forall>e self'. set_hash_ids self hash_ids = (Inl e, self') \<longrightarrow>
      rolled_back (db self) (db self')) \<and>
   (\<forall>e store'. add_hash_id_request store hashes now = (Inl e, store') \<longrightarrow>
      rolled_back (db store) (db store')) \<and>
   (\<forall>e store'. add_task store q d now = (Inl e, store') \<longrightarrow>
      rolled_back (db store) (db store')) \<and>
   (\<forall>e store'. clear_tasks store except_tasks = (Inl e, store') \<longrightarrow>
      rolled_back (db store) (db store')) \<and>
   (\<forall>e store'. PackageTask_remove task store = (Inl e, store') \<longrightarrow>
      rolled_back (db store) (db store'))"
proof (intro conjI allI impI)
  fix e c' assume "with_cursor m c = (Inl e, c')"
  from with_cursor_Inl[OF this]
  show "\<exists>w. m (working c) = (Inl e, w)" "rolled_back c c'"
    by (simp_all add: rolled_back_def)
next
  fix v c' assume "with_cursor m c = (Inr v, c')"
  from with_cursor_Inr[OF this]
  show "m (working c) = (Inr v, committed c')" "working c' = committed c'" by simp_all
next
  fix e self' assume "set_hash_ids self hash_ids = (Inl e, self')"
  then show "rolled_back (db self) (db self')"
    unfolding set_hash_ids_def by (rule on_db_with_cursor_Inl)
next
  fix e store' assume "add_hash_id_request store hashes now = (Inl e, store')"
  then show "rolled_back (db store) (db store')"
    unfolding add_hash_id_request_def by (rule on_db_with_cursor_Inl)
next
  fix e store' assume "add_task store q d now = (Inl e, store')"
  then show "rolled_back (db store) (db store')"
    unfolding add_task_def by (rule on_db_with_cursor_Inl)
next
  fix e store' assume "clear_tasks store except_tasks = (Inl e, store')"
  then show "rolled_back (db store) (db store')"
    unfolding clear_tasks_def by (rule on_db_with_cursor_Inl)
next
  fix e store' assume "PackageTask_remove task store = (Inl e, store')"
  then show "rolled_back (db store) (db store')"
    unfolding PackageTask_remove_def by (rule on_db_with_cursor_Inl)
qed

text \<open>
  A call that fails at its second pair (the id \<open>2^63\<close> does not fit in 64 bits): the
  first pair was written inside the transaction, and is gone after the call.
\<close>

theorem with_cursor_atomic_witness:
  "set_hash_ids_body [(''a'', 1), (''b'', 2 ^ 63)] (working (db example_hash_id_store)) =
     (Inl OverflowError, Db \<lparr>hash_tbl = Some (HashRows [(1, ''a'')]), package_tbls = None\<rparr>) \<and>
   fst (set_hash_ids example_hash_id_store [(''a'', 1), (''b'', 2 ^ 63)]) = Inl OverflowError \<and>
   committed (db (snd (set_hash_ids example_hash_id_store [(''a'', 1), (''b'', 2 ^ 63)]))) = example_hash_db \<and>
   working (db (snd (set_hash_ids example_hash_id_store [(''a'', 1), (''b'', 2 ^ 63)]))) = example_hash_db"
proof -
  define d where "d = ([(''a'', 1), (''b'', 2 ^ 63)] :: (string \<times> int) list)"
  have body: "set_hash_ids_body d (working (db example_hash_id_store)) =
     (Inl OverflowError, Db \<lparr>hash_tbl = Some (HashRows [(1, ''a'')]), package_tbls = None\<rparr>)"
    by (simp add: hash_eval example_hash_id_store_def example_hash_db_def d_def)
  have f: "fst (set_hash_ids example_hash_id_store d) = Inl OverflowError"
    by (simp add: hash_eval example_hash_id_store_def example_hash_db_def d_def)
  then have run: "set_hash_ids example_hash_id_store d =
     (Inl OverflowError, snd (set_hash_ids example_hash_id_store d))"
    by (cases "set_hash_ids example_hash_id_store d") simp
  have start: "committed (db example_hash_id_store) = example_hash_db"
    by (simp add: example_hash_id_store_def connect_def connection_on_def)
  from with_cursor_atomic[where self = example_hash_id_store and hash_ids = d] run
  have "rolled_back (db example_hash_id_store) (db (snd (set_hash_ids example_hash_id_store d)))"
    by blast
  with start body f show ?thesis
    unfolding d_def by (simp add: rolled_back_def)
qed

subsection \<open>The mapping between hashes and ids\<close>

text \<open>
  Claim C8, amended. On a file that has the table \<open>hash\<close>, for a dict whose ids are
  pairwise distinct and fit in 64 bits, \<open>set_hash_ids\<close> returns, and afterwards
  \<open>get_hash_id\<close> gives the id of every hash of the dict and \<open>get_id_hash\<close> the hash
  of every id; both still do after a later \<open>set_hash_ids\<close>, whether it returns or
  raises, that names neither the hash nor the id.
\<close>

theorem set_hash_ids_roundtrip:
  assumes "hash_rows (working (db self)) = Inr rs"
    and "distinct (map fst hash_ids)" and "distinct (map snd hash_ids)"
    and "\<forall>(h, i)\<in>set hash_ids. in_int64 i"
  shows "\<exists>self'. set_hash_ids self hash_ids = (Inr (), self') \<and>
     (\<forall>(h, i)\<in>set hash_ids.
        HashIdStore_get_hash_id self' h = (Inr (Some i), self') \<and>
        get_id_hash self' i = (Inr (Some h), self') \<and>
        (\<forall>later r self''.
           h \<notin> fst ` set later \<and> i \<notin> snd ` set later \<and>
           set_hash_ids self' later = (r, self'') \<longrightarrow>
           HashIdStore_get_hash_id self'' h = (Inr (Some i), self'') \<and>
           get_id_hash self'' i = (Inr (Some h), self'')))"
proof -
  from set_hash_ids_body_stores[OF assms] obtain f' rs' where
    body: "set_hash_ids_body hash_ids (working (db self)) = (Inr (), f')"
    and hr: "hash_rows f' = Inr rs'"
    and rows: "\<forall>(h, i)\<in>set hash_ids. sole_row i h rs'" by blast
  define self' where "self' = snd (set_hash_ids self hash_ids)"
  have run: "set_hash_ids self hash_ids = (Inr (), self')"
    using body by (simp add: self'_def set_hash_ids_def on_db_def with_cursor_def)
  from set_hash_ids_result[OF run] have wc: "with_cursor (set_hash_ids_body hash_ids) (db self) = (Inr (), db self')"
    and cl: "clean (db self')" by simp_all
  from with_cursor_Inr[OF wc] body have w: "working (db self') = f'" by simp
  have "HashIdStore_get_hash_id self' h = (Inr (Some i), self') \<and>
        get_id_hash self' i = (Inr (Some h), self') \<and>
        (\<forall>later r self''.
           h \<notin> fst ` set later \<and> i \<notin> snd ` set later \<and>
           set_hash_ids self' later = (r, self'') \<longrightarrow>
           HashIdStore_get_hash_id self'' h = (Inr (Some i), self'') \<and>
           get_id_hash self'' i = (Inr (Some h), self''))" if hi: "(h, i) \<in> set hash_ids" for h i
  proof (intro conjI allI impI)
    from hi rows have sr: "sole_row i h rs'" by auto
    from hi assms(4) have in64: "in_int64 i" by auto
    from hr w have hr': "hash_rows (working (db self')) = Inr rs'" by simp
    show "HashIdStore_get_hash_id self' h = (Inr (Some i), self')"
      using cl hr' sr by (rule get_hash_id_sole)
    show "get_id_hash self' i = (Inr (Some h), self')"
      using cl hr' sr in64 by (rule get_id_hash_sole)
    fix later r self''
    assume a: "h \<notin> fst ` set later \<and> i \<notin> snd ` set later \<and> set_hash_ids self' later = (r, self'')"
    from a set_hash_ids_result have wc2: "with_cursor (set_hash_ids_body later) (db self') = (r, db self'')"
      and cl2: "clean (db self'')" by blast+
    have "\<exists>rs''. hash_rows (working (db self'')) = Inr rs'' \<and> sole_row i h rs''"
    proof (cases r)
      case (Inl e)
      with with_cursor_Inl[of "set_hash_ids_body later" "db self'" e "db self''"] wc2 cl hr' sr
      show ?thesis by (auto simp: clean_def)
    next
      case (Inr u)
      with with_cursor_Inr[of "set_hash_ids_body later" "db self'" u "db self''"] wc2
      have "set_hash_ids_body later (working (db self')) = (Inr u, working (db self''))" by simp
      from set_hash_ids_body_keeps[OF sr hr' _ _ this] a show ?thesis by blast
    qed
    then obtain rs'' where hr'': "hash_rows (working (db self'')) = Inr rs''" and sr'': "sole_row i h rs''"
      by blast
    show "HashIdStore_get_hash_id self'' h = (Inr (Some i), self'')"
      using cl2 hr'' sr'' by (rule get_hash_id_sole)
    show "get_id_hash self'' i = (Inr (Some h), self'')"
      using cl2 hr'' sr'' in64 by (rule get_id_hash_sole)
  qed
  with run show ?thesis by blast
qed

text \<open>
  Claim C8 as stated fails for a dict that gives one id to two hashes: the second
  \<open>REPLACE\<close> deletes the row of the first, whose hash has no id afterwards, in
  whichever order the dict yields its items. It also fails for an id that does not fit
  in 64 bits: the call raises and stores nothing.
\<close>

theorem set_hash_ids_shared_id_counterexample:
  "distinct (map fst [(''a'', 1 :: int), (''b'', 1)]) \<and>
   fst (set_hash_ids example_hash_id_store [(''a'', 1), (''b'', 1)]) = Inr () \<and>
   fst (HashIdStore_get_hash_id
     (snd (set_hash_ids example_hash_id_store [(''a'', 1), (''b'', 1)])) ''a'') = Inr None \<and>
   fst (get_id_hash
     (snd (set_hash_ids example_hash_id_store [(''a'', 1), (''b'', 1)])) 1) = Inr (Some ''b'') \<and>
   fst (set_hash_ids example_hash_id_store [(''b'', 1), (''a'', 1)]) = Inr () \<and>
   fst (HashIdStore_get_hash_id
     (snd (set_hash_ids example_hash_id_store [(''b'', 1), (''a'', 1)])) ''b'') = Inr None \<and>
   fst (set_hash_ids example_hash_id_store [(''a'', 2 ^ 63)]) = Inl OverflowError \<and>
   fst (HashIdStore_get_hash_id
     (snd (set_hash_ids example_hash_id_store [(''a'', 2 ^ 63)])) ''a'') = Inr None"
  by (simp add: hash_eval example_hash_id_store_def example_hash_db_def)

text \<open>
  Two pairs stored in the empty example table, read back in both directions, and the
  first still read back after a later call for a third pair.
\<close>

theorem set_hash_ids_roundtrip_witness:
  "set_hash_ids example_hash_id_store [(''a'', 1), (''b'', 2)] =
     (Inr (), snd (set_hash_ids example_hash_id_store [(''a'', 1), (''b'', 2)])) \<and>
   fst (HashIdStore_get_hash_id
     (snd (set_hash_ids example_hash_id_store [(''a'', 1), (''b'', 2)])) ''a'') = Inr (Some 1) \<and>
   fst (get_id_hash
     (snd (set_hash_ids example_hash_id_store [(''a'', 1), (''b'', 2)])) 2) = Inr (Some ''b'') \<and>
   fst (HashIdStore_get_hash_id (snd (set_hash_ids
     (snd (set_hash_ids example_hash_id_store [(''a'', 1), (''b'', 2)])) [(''c'', 3)])) ''a'') = Inr (Some 1)"
proof -
  let ?d = "[(''a'', 1), (''b'', 2)] :: (string \<times> int) list"
  have h1: "hash_rows (working (db example_hash_id_store)) = Inr []"
    by (simp add: hash_eval example_hash_id_store_def example_hash_db_def)
  have h2: "distinct (map fst ?d)" "distinct (map snd ?d)" by simp_all
  have h3: "\<forall>(h, i)\<in>set ?d. in_int64 i" by (simp add: in_int64_def)
  from set_hash_ids_roundtrip[OF h1 h2 h3] obtain self' where
    run: "set_hash_ids example_hash_id_store ?d = (Inr (), self')"
    and rt: "\<forall>(h, i)\<in>set ?d.
        HashIdStore_get_hash_id self' h = (Inr (Some i), self') \<and>
        get_id_hash self' i = (Inr (Some h), self') \<and>
        (\<forall>later r self''.
           h \<notin> fst ` set later \<and> i \<notin> snd ` set later \<and>
           set_hash_ids self' later = (r, self'') \<longrightarrow>
           HashIdStore_get_hash_id self'' h = (Inr (Some i), self'') \<and>
           get_id_hash self'' i = (Inr (Some h), self''))" by blast
  from run have s: "snd (set_hash_ids example_hash_id_store ?d) = self'" by simp
  from rt have a: "HashIdStore_get_hash_id self' ''a'' = (Inr (Some 1), self')"
    and b: "get_id_hash self' 2 = (Inr (Some ''b''), self')"
    and later: "\<And>later r self''. ''a'' \<notin> fst ` set later \<Longrightarrow> 1 \<notin> snd ` set later \<Longrightarrow>
           set_hash_ids self' later = (r, self'') \<Longrightarrow>
           HashIdStore_get_hash_id self'' ''a'' = (Inr (Some 1), self'')" by auto
  have c: "HashIdStore_get_hash_id (snd (set_hash_ids self' [(''c'', 3)])) ''a'' =
     (Inr (Some 1), snd (set_hash_ids self' [(''c'', 3)]))"
    by (rule later[of "[(''c'', 3)]" "fst (set_hash_ids self' [(''c'', 3)])"]) simp_all
  from run a b c show ?thesis unfolding s by simp
qed

subsection \<open>Lookaside stores\<close>

lemmas store_simps = empty_database_def Let_def
  add_hash_id_db_def HashIdStore_init_def ensure_hash_id_schema_def create_table_hash_def
  check_sanity_def check_sanity_body_def PackageStore_get_hash_id_def has_hash_id_db_def

lemma read_only_clean:
  assumes "clean c" "\<And>f. snd (m f) = f"
  shows "snd (with_cursor m c) = c"
proof -
  obtain r w where m: "m (working c) = (r, w)" by (cases "m (working c)")
  with assms(2)[of "working c"] have "w = working c" by simp
  with m assms(1) show ?thesis
    by (cases r) (simp_all add: with_cursor_def commit_def rollback_def clean_def)
qed

lemma get_hash_id_body_snd: "snd (get_hash_id_body h f) = f"
  by (simp add: get_hash_id_body_def split: sum.splits option.splits)

lemma HashIdStore_get_hash_id_clean:
  "clean (db s) \<Longrightarrow> snd (HashIdStore_get_hash_id s h) = s"
proof -
  assume "clean (db s)"
  then have "snd (with_cursor (get_hash_id_body h) (db s)) = db s"
    by (rule read_only_clean) (rule get_hash_id_body_snd)
  then show ?thesis
    by (cases "with_cursor (get_hash_id_body h) (db s)")
      (simp add: HashIdStore_get_hash_id_def on_db_def)
qed

lemma HashIdStore_get_hash_id_fst:
  "fst (HashIdStore_get_hash_id s h) = fst (get_hash_id_body h (working (db s)))"
  by (simp add: HashIdStore_get_hash_id_def on_db_def with_cursor_def split: prod.splits sum.splits)

lemma HashIdStore_get_hash_id_rows:
  "hash_rows (working (db s)) = Inr rs \<Longrightarrow>
   fst (HashIdStore_get_hash_id s h) = Inr (fetchone (map fst (filter (\<lambda>(i', h'). h' = h) rs)))"
  by (simp add: HashIdStore_get_hash_id_fst get_hash_id_body_def select_id_where_hash_def
      split: option.splits)

lemma lookaside_length:
  "length (snd (lookaside_get_hash_id h stores)) = length stores"
  by (induction stores) (auto split: prod.splits sum.splits)

lemma lookaside_clean_nth:
  "k < length stores \<Longrightarrow> clean (db (stores ! k)) \<Longrightarrow>
   snd (lookaside_get_hash_id h stores) ! k = stores ! k"
proof (induction stores arbitrary: k)
  case Nil
  then show ?case by simp
next
  case (Cons s stores)
  show ?case
  proof (cases k)
    case 0
    with Cons.prems HashIdStore_get_hash_id_clean[of s h] show ?thesis
      by (auto split: prod.splits sum.splits)
  next
    case (Suc j)
    with Cons show ?thesis
      by (auto split: prod.splits sum.splits)
  qed
qed

lemma lookaside_all_absent:
  assumes "\<forall>s\<in>set stores. \<exists>rs. hash_rows (working (db s)) = Inr rs \<and> (\<forall>i. (i, h) \<in> set rs \<longrightarrow> i = 0)"
  shows "fst (lookaside_get_hash_id h stores) = Inr None"
  using assms
proof (induction stores)
  case Nil
  then show ?case by simp
next
  case (Cons s stores)
  then obtain rs where rs: "hash_rows (working (db s)) = Inr rs" "\<forall>i. (i, h) \<in> set rs \<longrightarrow> i = 0"
    by auto
  have "\<not> truth (fetchone (map fst (filter (\<lambda>(i', h'). h' = h) rs)))"
  proof (cases "filter (\<lambda>(i', h'). h' = h) rs")
    case Nil
    then show ?thesis by simp
  next
    case (Cons x xs)
    then have "x \<in> set (filter (\<lambda>(i', h'). h' = h) rs)" by simp
    with rs(2) have "fst x = 0" by auto
    with Cons show ?thesis by simp
  qed
  moreover have "fst (lookaside_get_hash_id h stores) = Inr None"
    using Cons by simp
  moreover note HashIdStore_get_hash_id_rows[OF rs(1), of h]
  ultimately show ?case
    by (cases "HashIdStore_get_hash_id s h"; cases "lookaside_get_hash_id h stores") auto
qed

lemma lookaside_first_nonzero:
  assumes "\<forall>s\<in>set pre. \<exists>rs. hash_rows (working (db s)) = Inr rs \<and> (\<forall>i. (i, h) \<in> set rs \<longrightarrow> i = 0)"
    and "fst (HashIdStore_get_hash_id s h) = Inr (Some i)" and "i \<noteq> 0"
  shows "fst (lookaside_get_hash_id h (pre @ s # post)) = Inr (Some i)"
  using assms(1)
proof (induction pre)
  case Nil
  with assms(2,3) show ?case
    by (cases "HashIdStore_get_hash_id s h") auto
next
  case (Cons p pre)
  then have "fst (lookaside_get_hash_id h [p]) = Inr None"
    using lookaside_all_absent[of "[p]" h] by simp
  then obtain x b where "HashIdStore_get_hash_id p h = (Inr x, b)" "\<not> truth x"
    by (cases "HashIdStore_get_hash_id p h") (auto split: sum.splits if_splits)
  moreover have "fst (lookaside_get_hash_id h (pre @ s # post)) = Inr (Some i)"
    using Cons by simp
  ultimately show ?case
    by (cases "lookaside_get_hash_id h (pre @ s # post)") auto
qed

lemma PackageStore_get_hash_id_stores:
  "hash_id_stores (snd (PackageStore_get_hash_id self h)) =
     snd (lookaside_get_hash_id h (hash_id_stores self))"
  by (cases "lookaside_get_hash_id h (hash_id_stores self)")
    (auto simp: PackageStore_get_hash_id_def HashIdStore_get_hash_id_def on_db_def
      split: sum.splits option.splits prod.splits)

lemma PackageStore_get_hash_id_fallback:
  assumes "fst (lookaside_get_hash_id h (hash_id_stores self)) = Inr None"
  shows "fst (PackageStore_get_hash_id self h) = fst (HashIdStore_get_hash_id self h)"
proof -
  obtain stores where "lookaside_get_hash_id h (hash_id_stores self) = (Inr None, stores)"
    using assms by (cases "lookaside_get_hash_id h (hash_id_stores self)") auto
  then show ?thesis
    by (simp add: PackageStore_get_hash_id_def HashIdStore_get_hash_id_fst)
qed

text \<open>
  Claim C10. If every attached lookaside store that has the hash gives it the id 0,
  \<open>PackageStore.get_hash_id\<close> returns what \<open>HashIdStore.get_hash_id\<close> returns on the
  store's own file: the id there, and \<open>None\<close> when that file has no row for the hash.
\<close>

theorem get_hash_id_zero_falls_through:
  assumes "\<forall>s\<in>set (hash_id_stores self).
     \<exists>rs. hash_rows (working (db s)) = Inr rs \<and> (\<forall>i. (i, h) \<in> set rs \<longrightarrow> i = 0)"
  shows "fst (PackageStore_get_hash_id self h) = fst (HashIdStore_get_hash_id self h) \<and>
     (\<forall>rs. hash_rows (working (db self)) = Inr rs \<and> h \<notin> snd ` set rs \<longrightarrow>
        fst (PackageStore_get_hash_id self h) = Inr None)"
proof -
  from assms have "fst (lookaside_get_hash_id h (hash_id_stores self)) = Inr None"
    by (rule lookaside_all_absent)
  then have eq: "fst (PackageStore_get_hash_id self h) = fst (HashIdStore_get_hash_id self h)"
    by (rule PackageStore_get_hash_id_fallback)
  have "fst (HashIdStore_get_hash_id self h) = Inr None"
    if "hash_rows (working (db self)) = Inr rs" "h \<notin> snd ` set rs" for rs
  proof -
    from that(2) have "filter (\<lambda>(i', h'). h' = h) rs = []"
      by (auto intro!: filter_none simp: image_iff)
    with HashIdStore_get_hash_id_rows[OF that(1), of h] show ?thesis by simp
  qed
  with eq show ?thesis by simp
qed

lemmas hash_simps = connect_def connection_on_def hash_rows_def set_hash_rows_def
  HashIdStore_get_hash_id_def get_hash_id_body_def select_id_where_hash_def
  on_db_def with_cursor_def rollback_def commit_def

text \<open>
  With the lookaside file that gives \<open>h\<close> the id 0 attached to the example store, the
  id of \<open>h\<close> is the 5 of the store's own file, and a hash in neither file has no id.
\<close>

theorem get_hash_id_zero_falls_through_witness:
  "fst (add_hash_id_db example_store ''l1'' (Present lookaside_zero_db)) = Inr () \<and>
   fst (HashIdStore_get_hash_id
     (hd (hash_id_stores (snd (add_hash_id_db example_store ''l1'' (Present lookaside_zero_db)))))
     ''h'') = Inr (Some 0) \<and>
   fst (PackageStore_get_hash_id
     (snd (add_hash_id_db example_store ''l1'' (Present lookaside_zero_db))) ''h'') = Inr (Some 5) \<and>
   fst (PackageStore_get_hash_id
     (snd (add_hash_id_db example_store ''l1'' (Present lookaside_zero_db))) ''g'') = Inr None"
proof -
  let ?s = "snd (add_hash_id_db example_store ''l1'' (Present lookaside_zero_db))"
  have stores: "hash_id_stores ?s = [\<lparr>filename = ''l1'', db = connection_on lookaside_zero_db\<rparr>]"
    by (simp add: store_simps hash_simps example_store_def example_package_db_def lookaside_zero_db_def)
  have hyp: "\<forall>s\<in>set (hash_id_stores ?s).
     \<exists>rs. hash_rows (working (db s)) = Inr rs \<and> (\<forall>i. (i, h) \<in> set rs \<longrightarrow> i = 0)" for h
    unfolding stores by (simp add: lookaside_zero_db_def hash_simps)
  have prim: "fst (HashIdStore_get_hash_id ?s ''h'') = Inr (Some 5)"
    by (simp add: store_simps hash_simps example_store_def example_package_db_def lookaside_zero_db_def)
  have rows: "hash_rows (working (db ?s)) = Inr [(5, ''h'')] \<and> ''g'' \<notin> snd ` set [(5 :: int, ''h'')]"
    by (simp add: store_simps hash_simps example_store_def example_package_db_def lookaside_zero_db_def)
  have l1: "fst (HashIdStore_get_hash_id (hd (hash_id_stores ?s)) ''h'') = Inr (Some 0)"
    unfolding stores by (simp add: lookaside_zero_db_def hash_simps)
  have ok: "fst (add_hash_id_db example_store ''l1'' (Present lookaside_zero_db)) = Inr ()"
    by (simp add: store_simps hash_simps example_store_def example_package_db_def lookaside_zero_db_def)
  from get_hash_id_zero_falls_through[OF hyp, of "''h''"] prim
  have a: "fst (PackageStore_get_hash_id ?s ''h'') = Inr (Some 5)" by simp
  from get_hash_id_zero_falls_through[OF hyp, of "''g''"] rows
  have b: "fst (PackageStore_get_hash_id ?s ''g'') = Inr None" by blast
  from ok l1 a b show ?thesis by simp
qed

text \<open>
  Claim C5 at the first lookaside store giving the hash the id 0, the second the id 7
  and the store's own file the id 5: the first store has the hash, and the id returned
  is that of the second.
\<close>

theorem get_hash_id_skips_zero_id_lookaside:
  "fst (HashIdStore_get_hash_id
     (hd (hash_id_stores (snd (add_hash_id_db example_store ''l1'' (Present lookaside_zero_db)))))
     ''h'') = Inr (Some 0) \<and>
   fst (PackageStore_get_hash_id
     (snd (add_hash_id_db
        (snd (add_hash_id_db example_store ''l1'' (Present lookaside_zero_db)))
        ''l2'' (Present lookaside_seven_db))) ''h'') = Inr (Some 7)"
  by (simp add: store_simps hash_simps example_store_def example_package_db_def
      lookaside_zero_db_def lookaside_seven_db_def)

lemma add_hash_id_db_invalid:
  assumes "at_path = Present Junk \<or>
      (\<exists>d. at_path = Present (Db d) \<and> hash_tbl d = Some ForeignSchema)"
  shows "add_hash_id_db self fname at_path = (Inl (InvalidHashIdDb fname), self)"
  using assms
  by (auto simp: add_hash_id_db_def HashIdStore_init_def ensure_hash_id_schema_def
      create_table_hash_def check_sanity_def check_sanity_body_def select_id_where_hash_def
      hash_simps)

lemma add_hash_id_db_valid:
  assumes "hash_tbl d = Some (HashRows rs)"
  shows "add_hash_id_db self fname (Present (Db d)) =
     (Inr (), self\<lparr>hash_id_stores := hash_id_stores self @
        [\<lparr>filename = fname, db = \<lparr>committed = Db d, working = Db d\<rparr>\<rparr>]\<rparr>)"
  using assms
  by (auto simp: add_hash_id_db_def HashIdStore_init_def ensure_hash_id_schema_def
      create_table_hash_def check_sanity_def check_sanity_body_def select_id_where_hash_def
      hash_simps)

text \<open>
  Claim C6 at a database file that has no table \<open>hash\<close> (and at a path with no file):
  \<open>HashIdStore.__init__\<close> creates the table, \<open>check_sanity\<close> passes, and the store is
  attached; \<open>has_hash_id_db\<close> was false before the call and is true after it.
\<close>

theorem add_hash_id_db_missing_table_attached:
  "\<not> has_hash_id_db example_store \<and>
   add_hash_id_db example_store ''lookaside'' (Present (Db empty_database)) =
     (Inr (), example_store\<lparr>hash_id_stores :=
        [\<lparr>filename = ''lookaside'', db = connection_on example_hash_db\<rparr>]\<rparr>) \<and>
   has_hash_id_db (snd (add_hash_id_db example_store ''lookaside'' (Present (Db empty_database)))) \<and>
   add_hash_id_db example_store ''lookaside'' Absent =
     add_hash_id_db example_store ''lookaside'' (Present (Db empty_database))"
  by (simp add: store_simps hash_simps example_hash_db_def example_store_def
      example_package_db_def)

text \<open>
  Claim C9 at the same file. By the docstrings of \<open>add_hash_id_db\<close> and \<open>check_sanity\<close>
  a file without a table \<open>hash\<close> is refused with \<open>InvalidHashIdDb\<close>. Instead
  \<open>HashIdStore.__init__\<close> runs \<open>CREATE TABLE hash\<close> on it before \<open>check_sanity\<close> looks
  at it: the call returns, the store is attached, and its file holds a table \<open>hash\<close>
  that it did not hold before the call. This is the defect of claim C6, seen from the
  file.
\<close>

theorem add_hash_id_db_writes_missing_table:
  "fst (add_hash_id_db example_store ''lookaside'' (Present (Db empty_database))) = Inr () \<and>
   committed (db (hd (hash_id_stores
     (snd (add_hash_id_db example_store ''lookaside'' (Present (Db empty_database)))))))
     = Db \<lparr>hash_tbl = Some (HashRows []), package_tbls = None\<rparr> \<and>
   Db \<lparr>hash_tbl = Some (HashRows []), package_tbls = None\<rparr> \<noteq> Db empty_database"
  by (simp add: store_simps hash_simps example_store_def example_package_db_def)

text \<open>
  The same at every store and every database file without the table, whatever else
  the file holds.
\<close>

lemma add_hash_id_db_creates_table:
  assumes "hash_tbl d = None"
  shows "add_hash_id_db self fname (Present (Db d)) =
     (Inr (), self\<lparr>hash_id_stores := hash_id_stores self @
        [\<lparr>filename = fname,
          db = connection_on (Db (d\<lparr>hash_tbl := Some (HashRows [])\<rparr>))\<rparr>]\<rparr>)"
  using assms
  by (simp add: add_hash_id_db_def HashIdStore_init_def ensure_hash_id_schema_def
      create_table_hash_def check_sanity_def check_sanity_body_def Let_def hash_simps)

text \<open>
  A path at which no file can be opened or created is refused, with the
  \<open>OperationalError\<close> of \<open>sqlite3.connect\<close>.
\<close>

lemma add_hash_id_db_unopenable:
  "add_hash_id_db self fname Unopenable = (Inl OperationalError, self)"
  by (simp add: add_hash_id_db_def HashIdStore_init_def connect_def)

text \<open>
  A file that is refused with \<open>InvalidHashIdDb\<close> is not written to: the \<open>CREATE TABLE\<close>
  of the constructor fails on it and the connection is rolled back, and so is the
  \<open>SELECT\<close> of \<open>check_sanity\<close>.
\<close>

lemma refused_file_unchanged:
  assumes "f = Junk \<or> (\<exists>d. f = Db d \<and> hash_tbl d = Some ForeignSchema)"
  shows "HashIdStore_init fname (Present f) = Inr \<lparr>filename = fname, db = connection_on f\<rparr> \<and>
     check_sanity \<lparr>filename = fname, db = connection_on f\<rparr> =
       (Inl (InvalidHashIdDb fname), \<lparr>filename = fname, db = connection_on f\<rparr>)"
  using assms
  by (auto simp: HashIdStore_init_def ensure_hash_id_schema_def
      create_table_hash_def check_sanity_def check_sanity_body_def select_id_where_hash_def
      hash_simps)

lemma reads_keep_lookaside:
  assumes "n < length (hash_id_stores s)" "clean (db (hash_id_stores s ! n))"
  shows "n < length (hash_id_stores (foldl (\<lambda>s h. snd (PackageStore_get_hash_id s h)) s hs)) \<and>
     hash_id_stores (foldl (\<lambda>s h. snd (PackageStore_get_hash_id s h)) s hs) ! n =
       hash_id_stores s ! n"
  using assms
proof (induction hs arbitrary: s)
  case Nil
  then show ?case by simp
next
  case (Cons h hs)
  let ?s1 = "snd (PackageStore_get_hash_id s h)"
  have len: "n < length (hash_id_stores ?s1)"
    using Cons.prems(1) by (simp add: PackageStore_get_hash_id_stores lookaside_length)
  have same: "hash_id_stores ?s1 ! n = hash_id_stores s ! n"
    using Cons.prems by (simp add: PackageStore_get_hash_id_stores lookaside_clean_nth)
  with Cons.prems have "clean (db (hash_id_stores ?s1 ! n))" by simp
  from Cons.IH[OF len this] same show ?case by simp
qed

text \<open>
  Apart from that defect the file of a lookaside store is left alone. A file that has
  the table \<open>hash\<close> of this module is attached, and after the call and after any
  sequence of \<open>get_hash_id\<close> calls on the store it holds what it held before the call.
\<close>

lemma lookaside_file_unchanged:
  assumes "hash_tbl d = Some (HashRows rs)"
  shows "\<exists>self'. add_hash_id_db self fname (Present (Db d)) = (Inr (), self') \<and>
     length (hash_id_stores self') = Suc (length (hash_id_stores self)) \<and>
     (\<forall>hs. committed (db (hash_id_stores
        (foldl (\<lambda>s h. snd (PackageStore_get_hash_id s h)) self' hs) !
          length (hash_id_stores self))) = Db d)"
proof -
  let ?n = "length (hash_id_stores self)"
  let ?self' = "self\<lparr>hash_id_stores := hash_id_stores self @
        [\<lparr>filename = fname, db = \<lparr>committed = Db d, working = Db d\<rparr>\<rparr>]\<rparr>"
  have run: "add_hash_id_db self fname (Present (Db d)) = (Inr (), ?self')"
    using assms by (rule add_hash_id_db_valid)
  have len: "?n < length (hash_id_stores ?self')"
    and nth: "hash_id_stores ?self' ! ?n =
      \<lparr>filename = fname, db = \<lparr>committed = Db d, working = Db d\<rparr>\<rparr>"
    by simp_all
  then have cl: "clean (db (hash_id_stores ?self' ! ?n))" by (simp add: clean_def)
  have "\<forall>hs. committed (db (hash_id_stores
        (foldl (\<lambda>s h. snd (PackageStore_get_hash_id s h)) ?self' hs) ! ?n)) = Db d"
    using reads_keep_lookaside[OF len cl] nth by simp
  moreover have "length (hash_id_stores ?self') = Suc ?n" by simp
  ultimately show ?thesis using run by blast
qed

text \<open>
  The lookaside file that gives \<open>h\<close> the id 7, attached to the example store and read
  through twice, is as it was.
\<close>

lemma lookaside_file_unchanged_example:
  "fst (add_hash_id_db example_store ''l2'' (Present lookaside_seven_db)) = Inr () \<and>
   fst (PackageStore_get_hash_id
     (snd (add_hash_id_db example_store ''l2'' (Present lookaside_seven_db))) ''h'') = Inr (Some 7) \<and>
   committed (db (hash_id_stores
     (snd (PackageStore_get_hash_id
        (snd (PackageStore_get_hash_id
           (snd (add_hash_id_db example_store ''l2'' (Present lookaside_seven_db))) ''h'')) ''g'')) ! 0))
     = lookaside_seven_db"
proof -
  let ?d = "\<lparr>hash_tbl = Some (HashRows [(7, ''h'')]), package_tbls = None\<rparr>"
  let ?s = "example_store\<lparr>hash_id_stores :=
     [\<lparr>filename = ''l2'', db = \<lparr>committed = Db ?d, working = Db ?d\<rparr>\<rparr>]\<rparr>"
  have h1: "hash_tbl ?d = Some (HashRows [(7, ''h'')])" by simp
  have h2: "add_hash_id_db example_store ''l2'' (Present (Db ?d)) = (Inr (), ?s)"
    by (simp add: store_simps hash_simps example_store_def example_package_db_def)
  have run: "add_hash_id_db example_store ''l2'' (Present lookaside_seven_db) = (Inr (), ?s)"
    using h2 by (simp only: lookaside_seven_db_def)
  have n: "length (hash_id_stores example_store) = 0" by (simp add: example_store_def)
  from lookaside_file_unchanged[OF h1, of example_store "''l2''"]
  have "\<forall>hs. committed (db (hash_id_stores
        (foldl (\<lambda>s h. snd (PackageStore_get_hash_id s h)) ?s hs) ! 0)) = Db ?d"
    unfolding h2 n by blast
  then have "committed (db (hash_id_stores
        (foldl (\<lambda>s h. snd (PackageStore_get_hash_id s h)) ?s [''h'', ''g'']) ! 0)) = Db ?d"
    by (rule spec)
  then have a: "committed (db (hash_id_stores
     (snd (PackageStore_get_hash_id (snd (PackageStore_get_hash_id ?s ''h'')) ''g'')) ! 0)) =
     lookaside_seven_db"
    by (simp only: foldl.simps lookaside_seven_db_def)
  have b: "fst (PackageStore_get_hash_id ?s ''h'') = Inr (Some 7)"
    by (simp add: store_simps hash_simps example_store_def example_package_db_def)
  show ?thesis unfolding run fst_conv snd_conv using a b by blast
qed

subsection \<open>Tasks\<close>

lemma package_tables_of_set:
  "package_tables_of f = Inr p \<Longrightarrow> package_tables_of (set_package_tables p' f) = Inr p'"
  by (auto simp: package_tables_of_def set_package_tables_def split: dbfile.splits option.splits)

lemma on_db_with_cursor_Inr:
  assumes "m (working (db s)) = (Inr v, f')"
  shows "on_db (with_cursor m) s = (Inr v, s\<lparr>db := \<lparr>committed = f', working = f'\<rparr>\<rparr>)"
  using assms by (simp add: on_db_def with_cursor_def commit_def)

lemma on_db_with_cursor_read:
  assumes "clean (db s)" "m (working (db s)) = (Inr v, working (db s))"
  shows "on_db (with_cursor m) s = (Inr v, s)"
proof -
  from assms have "with_cursor m (db s) = (Inr v, db s)" by (rule with_cursor_read)
  then show ?thesis by (simp add: on_db_def)
qed

lemma next_rowid_greater: "x \<in> set ids \<Longrightarrow> x < next_rowid ids"
proof -
  assume "x \<in> set ids"
  then have "x \<le> Max (set ids)" "ids \<noteq> []" by auto
  then show ?thesis by (simp add: next_rowid_def)
qed

lemma filter_distinct_key:
  "distinct (map f xs) \<Longrightarrow> x \<in> set xs \<Longrightarrow> filter (\<lambda>y. f y = f x) xs = [x]"
proof (induction xs)
  case Nil
  then show ?case by simp
next
  case (Cons a xs)
  show ?case
  proof (cases "a = x")
    case True
    with Cons.prems have "\<forall>y\<in>set xs. f y \<noteq> f x" by (auto simp: image_iff)
    then have "filter (\<lambda>y. f y = f x) xs = []" by (auto intro: filter_none)
    with True show ?thesis by simp
  next
    case False
    with Cons.prems have "x \<in> set xs" "f a \<noteq> f x" by (auto simp: image_iff)
    with Cons show ?thesis by simp
  qed
qed

lemma PackageTask_init_row:
  assumes "package_tables_of f = Inr p" "distinct (map task_row_id (task_tbl p))"
    "r \<in> set (task_tbl p)"
  shows "PackageTask_init f (task_row_id r) = Inr (task_of_row r)"
  using assms filter_distinct_key[of task_row_id "task_tbl p" r]
  by (simp add: PackageTask_init_def task_of_row_def)

lemma ascending_distinct:
  "sorted_wrt (<) (map task_row_id rows) \<Longrightarrow> distinct (map task_row_id rows)"
  by (simp add: strict_sorted_iff)

lemma get_next_task_queue_rows:
  assumes "clean (db s)" "package_tables_of (working (db s)) = Inr p"
    "distinct (map task_row_id (task_tbl p))"
  shows "get_next_task s q = (Inr (map_option task_of_row (fetchone (queue_rows q p))), s)"
proof -
  have "get_next_task_body q (working (db s)) =
     (Inr (map_option task_of_row (fetchone (queue_rows q p))), working (db s))"
  proof (cases "queue_rows q p")
    case Nil
    with assms(2) show ?thesis
      by (simp add: get_next_task_body_def select_task_ids_def queue_rows_def)
  next
    case (Cons r rs)
    then have "r \<in> set (queue_rows q p)" by simp
    then have "r \<in> set (task_tbl p)" by (simp add: queue_rows_def)
    from PackageTask_init_row[OF assms(2,3) this] Cons assms(2) show ?thesis
      by (simp add: get_next_task_body_def select_task_ids_def queue_rows_def)
  qed
  with assms(1) show ?thesis
    unfolding get_next_task_def by (rule on_db_with_cursor_read)
qed

lemma add_task_result:
  fixes q :: string and d :: pyvalue and now :: real
  assumes "package_tables_of (working (db s)) = Inr p"
  defines "row \<equiv> \<lparr>task_row_id = next_rowid (map task_row_id (task_tbl p)), task_row_queue = q,
                   task_row_timestamp = now, task_row_data = bpickle_dumps d\<rparr>"
  shows "\<exists>s'. add_task s q d now =
       (Inr \<lparr>task_id = task_row_id row, queue = q, timestamp = now, data = d\<rparr>, s') \<and>
     clean (db s') \<and>
     package_tables_of (working (db s')) = Inr (p\<lparr>task_tbl := task_tbl p @ [row]\<rparr>)"
proof -
  let ?p' = "p\<lparr>task_tbl := task_tbl p @ [row]\<rparr>"
  let ?f' = "set_package_tables ?p' (working (db s))"
  have pt: "package_tables_of ?f' = Inr ?p'"
    using assms(1) by (rule package_tables_of_set)
  have "task_row_id r \<noteq> task_row_id row" if "r \<in> set (task_tbl p)" for r
  proof -
    from that have "task_row_id r \<in> set (map task_row_id (task_tbl p))" by simp
    then have "task_row_id r < next_rowid (map task_row_id (task_tbl p))"
      by (rule next_rowid_greater)
    then show ?thesis by (simp add: row_def)
  qed
  then have "filter (\<lambda>r. task_row_id r = task_row_id row) (task_tbl p) = []"
    by (auto intro: filter_none)
  then have "PackageTask_init ?f' (task_row_id row) =
     Inr \<lparr>task_id = task_row_id row, queue = q, timestamp = now, data = d\<rparr>"
    using pt by (simp add: PackageTask_init_def row_def bpickle_dumps_def)
  then have "add_task_body q d now (working (db s)) =
     (Inr \<lparr>task_id = task_row_id row, queue = q, timestamp = now, data = d\<rparr>, ?f')"
    using assms(1) by (simp add: add_task_body_def Let_def row_def)
  from on_db_with_cursor_Inr[where m = "add_task_body q d now" and s = s, OF this] pt
  show ?thesis by (simp add: add_task_def clean_def)
qed

lemma PackageTask_remove_result:
  assumes "package_tables_of (working (db s)) = Inr p"
  shows "\<exists>s'. PackageTask_remove t s = (Inr (), s') \<and> clean (db s') \<and>
     package_tables_of (working (db s')) =
       Inr (p\<lparr>task_tbl := filter (\<lambda>r. task_row_id r \<noteq> task_id t) (task_tbl p)\<rparr>)"
proof -
  let ?p' = "p\<lparr>task_tbl := filter (\<lambda>r. task_row_id r \<noteq> task_id t) (task_tbl p)\<rparr>"
  let ?f' = "set_package_tables ?p' (working (db s))"
  have pt: "package_tables_of ?f' = Inr ?p'"
    using assms(1) by (rule package_tables_of_set)
  have "PackageTask_remove_body t (working (db s)) = (Inr (), ?f')"
    using assms by (simp add: PackageTask_remove_body_def)
  from on_db_with_cursor_Inr[where m = "PackageTask_remove_body t" and s = s, OF this] pt
  show ?thesis by (simp add: PackageTask_remove_def clean_def)
qed

lemma clear_tasks_result:
  assumes "package_tables_of (working (db s)) = Inr p"
  shows "\<exists>s'. clear_tasks s except_tasks = (Inr (), s') \<and> clean (db s') \<and>
     package_tables_of (working (db s')) =
       Inr (p\<lparr>task_tbl :=
              filter (\<lambda>r. task_row_id r \<in> task_id ` set except_tasks) (task_tbl p)\<rparr>)"
proof -
  let ?p' = "p\<lparr>task_tbl :=
              filter (\<lambda>r. task_row_id r \<in> task_id ` set except_tasks) (task_tbl p)\<rparr>"
  let ?f' = "set_package_tables ?p' (working (db s))"
  have pt: "package_tables_of ?f' = Inr ?p'"
    using assms(1) by (rule package_tables_of_set)
  have "clear_tasks_body except_tasks (working (db s)) = (Inr (), ?f')"
    using assms by (simp add: clear_tasks_body_def)
  from on_db_with_cursor_Inr[where m = "clear_tasks_body except_tasks" and s = s, OF this] pt
  show ?thesis by (simp add: clear_tasks_def clean_def)
qed

lemma insort_key_snoc:
  "f a \<le> f x \<Longrightarrow> insort_key f a (zs @ [x]) = insort_key f a zs @ [x]"
  by (induction zs) auto

lemma sort_key_snoc:
  "\<forall>y\<in>set xs. f y \<le> f x \<Longrightarrow> sort_key f (xs @ [x]) = sort_key f xs @ [x]"
  by (induction xs) (auto simp: insort_key_snoc)

lemma queue_rows_filter:
  "queue_rows q (p\<lparr>task_tbl := filter P (task_tbl p)\<rparr>) = filter P (queue_rows q p)"
proof -
  have "filter (\<lambda>r. task_row_queue r = q) (filter P (task_tbl p)) =
        filter P (filter (\<lambda>r. task_row_queue r = q) (task_tbl p))"
    by (induction "task_tbl p") (auto simp: conj_commute)
  then show ?thesis by (simp add: queue_rows_def filter_sort del: filter_filter)
qed

lemma queue_rows_remove_head:
  assumes "distinct (map task_row_id (task_tbl p))" "queue_rows q p = r # rs"
  shows "queue_rows q (p\<lparr>task_tbl := filter (\<lambda>x. task_row_id x \<noteq> task_row_id r) (task_tbl p)\<rparr>) = rs"
proof -
  have "distinct (map task_row_id (filter (\<lambda>r. task_row_queue r = q) (task_tbl p)))"
    using assms(1) by (simp add: distinct_map_filter)
  then have "distinct (map task_row_id (queue_rows q p))"
    unfolding queue_rows_def
    by (metis distinct_map distinct_sort set_sort)
  with assms(2) have "\<forall>x\<in>set rs. task_row_id x \<noteq> task_row_id r" by (auto simp: image_iff)
  then have "filter (\<lambda>x. task_row_id x \<noteq> task_row_id r) rs = rs" by simp
  with assms(2) show ?thesis by (simp add: queue_rows_filter)
qed

lemma queue_rows_other:
  "q' \<noteq> q \<Longrightarrow> task_row_queue row = q' \<Longrightarrow>
   queue_rows q (p\<lparr>task_tbl := task_tbl p @ [row]\<rparr>) = queue_rows q p"
  by (simp add: queue_rows_def)

lemma queue_rows_add_last:
  assumes "task_row_queue row = q" "\<forall>r\<in>set (queue_rows q p). task_row_timestamp r \<le> task_row_timestamp row"
  shows "queue_rows q (p\<lparr>task_tbl := task_tbl p @ [row]\<rparr>) = queue_rows q p @ [row]"
  using assms by (simp add: queue_rows_def sort_key_snoc)

lemma queue_rows_head_least:
  assumes asc: "sorted_wrt (<) (map task_row_id (task_tbl p))" and hd: "queue_rows q p = r # rs"
    and r': "r' \<in> set (task_tbl p)" "task_row_queue r' = q"
  shows "task_row_timestamp r < task_row_timestamp r' \<or>
     (task_row_timestamp r = task_row_timestamp r' \<and> task_row_id r \<le> task_row_id r')"
proof -
  let ?xs = "filter (\<lambda>r. task_row_queue r = q) (task_tbl p)"
  from r' have in_xs: "r' \<in> set ?xs" by simp
  then have in_ys: "r' \<in> set (queue_rows q p)" by (simp add: queue_rows_def)
  have "sorted (map task_row_timestamp (queue_rows q p))"
    by (simp add: queue_rows_def)
  with hd in_ys have le: "task_row_timestamp r \<le> task_row_timestamp r'" by auto
  show ?thesis
  proof (cases "task_row_timestamp r = task_row_timestamp r'")
    case False
    with le show ?thesis by simp
  next
    case True
    let ?k = "task_row_timestamp r"
    have stable: "filter (\<lambda>y. task_row_timestamp y = ?k) (queue_rows q p) =
                  filter (\<lambda>y. task_row_timestamp y = ?k) ?xs"
      unfolding queue_rows_def by (rule sort_key_stable)
    have "sorted_wrt (<) (map task_row_id (filter (\<lambda>y. task_row_timestamp y = ?k) ?xs))"
      using asc by (simp add: sorted_wrt_map sorted_wrt_filter)
    with stable hd have "sorted_wrt (<) (map task_row_id
        (r # filter (\<lambda>y. task_row_timestamp y = ?k) rs))" by simp
    moreover have "r' \<in> set (r # filter (\<lambda>y. task_row_timestamp y = ?k) rs)"
      using in_ys hd True by auto
    ultimately have "task_row_id r \<le> task_row_id r'" by auto
    with True show ?thesis by simp
  qed
qed

lemma queue_rows_empty_iff:
  "queue_rows q p = [] \<longleftrightarrow> (\<forall>r\<in>set (task_tbl p). task_row_queue r \<noteq> q)"
proof -
  have "queue_rows q p = [] \<longleftrightarrow> set (queue_rows q p) = {}" by simp
  also have "\<dots> \<longleftrightarrow> (\<forall>r\<in>set (task_tbl p). task_row_queue r \<noteq> q)"
    unfolding queue_rows_def by auto
  finally show ?thesis .
qed

lemma ascending_add:
  assumes "sorted_wrt (<) (map task_row_id rows)"
  shows "sorted_wrt (<) (map task_row_id
     (rows @ [\<lparr>task_row_id = next_rowid (map task_row_id rows), task_row_queue = q,
               task_row_timestamp = now, task_row_data = b\<rparr>]))"
  using assms next_rowid_greater[of _ "map task_row_id rows"]
  by (auto simp: sorted_wrt_append)

lemma ascending_filter:
  "sorted_wrt (<) (map task_row_id rows) \<Longrightarrow> sorted_wrt (<) (map task_row_id (filter P rows))"
  by (simp add: sorted_wrt_map sorted_wrt_filter)

lemma get_next_task_fst:
  assumes "package_tables_of (working (db s)) = Inr p"
    "distinct (map task_row_id (task_tbl p))"
  shows "fst (get_next_task s q) = Inr (map_option task_of_row (fetchone (queue_rows q p)))"
proof -
  let ?s = "s\<lparr>db := \<lparr>committed = working (db s), working = working (db s)\<rparr>\<rparr>"
  have "fst (get_next_task s q) = fst (get_next_task ?s q)"
    by (simp add: get_next_task_def on_db_def with_cursor_def split: prod.splits sum.splits)
  moreover have "get_next_task ?s q =
     (Inr (map_option task_of_row (fetchone (queue_rows q p))), ?s)"
    using assms by (intro get_next_task_queue_rows) (simp_all add: clean_def)
  ultimately show ?thesis by simp
qed

lemma enqueue_step:
  fixes q :: string and d :: pyvalue and now :: real
  assumes tables: "package_tables_of (working (db s)) = Inr p"
    and asc: "sorted_wrt (<) (map task_row_id (task_tbl p))"
    and late: "\<forall>r\<in>set (queue_rows q p). task_row_timestamp r \<le> now"
  shows "\<exists>s' p' row. add_task s q d now = (Inr (task_of_row row), s') \<and>
     task_of_row row =
       \<lparr>task_id = next_rowid (map task_row_id (task_tbl p)), queue = q, timestamp = now, data = d\<rparr> \<and>
     data (task_of_row row) = d \<and> task_row_timestamp row = now \<and>
     clean (db s') \<and> package_tables_of (working (db s')) = Inr p' \<and>
     sorted_wrt (<) (map task_row_id (task_tbl p')) \<and>
     queue_rows q p' = queue_rows q p @ [row]"
proof -
  define row where "row = \<lparr>task_row_id = next_rowid (map task_row_id (task_tbl p)),
     task_row_queue = q, task_row_timestamp = now, task_row_data = bpickle_dumps d\<rparr>"
  let ?p' = "p\<lparr>task_tbl := task_tbl p @ [row]\<rparr>"
  from add_task_result[OF tables, where q = q and now = now and d = d] obtain s' where
    run: "add_task s q d now = (Inr \<lparr>task_id = task_row_id row, queue = q, timestamp = now, data = d\<rparr>, s')"
    and cl: "clean (db s')" and t': "package_tables_of (working (db s')) = Inr ?p'"
    unfolding row_def by blast
  have tr: "task_of_row row =
       \<lparr>task_id = next_rowid (map task_row_id (task_tbl p)), queue = q, timestamp = now, data = d\<rparr>"
    by (simp add: task_of_row_def row_def bpickle_dumps_def)
  have asc': "sorted_wrt (<) (map task_row_id (task_tbl ?p'))"
    using ascending_add[OF asc, of q now "bpickle_dumps d"] by (simp add: row_def)
  have qr: "queue_rows q ?p' = queue_rows q p @ [row]"
    using late by (intro queue_rows_add_last) (simp_all add: row_def)
  from run tr have "add_task s q d now = (Inr (task_of_row row), s')" by (simp add: row_def)
  with tr cl t' asc' qr show ?thesis
    by (intro exI[of _ s'] exI[of _ ?p'] exI[of _ row]) (simp add: row_def)
qed

lemma dequeue_step:
  assumes cl: "clean (db s)" and tables: "package_tables_of (working (db s)) = Inr p"
    and asc: "sorted_wrt (<) (map task_row_id (task_tbl p))"
    and hd: "queue_rows q p = r # rs"
  shows "get_next_task s q = (Inr (Some (task_of_row r)), s) \<and>
     (\<exists>s' p'. PackageTask_remove (task_of_row r) s = (Inr (), s') \<and>
        clean (db s') \<and> package_tables_of (working (db s')) = Inr p' \<and>
        sorted_wrt (<) (map task_row_id (task_tbl p')) \<and>
        task_tbl p' = filter (\<lambda>x. task_row_id x \<noteq> task_row_id r) (task_tbl p) \<and>
        queue_rows q p' = rs)"
proof -
  from asc have dist: "distinct (map task_row_id (task_tbl p))" by (rule ascending_distinct)
  from get_next_task_queue_rows[OF cl tables dist, of q] hd
  have g: "get_next_task s q = (Inr (Some (task_of_row r)), s)" by simp
  let ?p' = "p\<lparr>task_tbl := filter (\<lambda>x. task_row_id x \<noteq> task_row_id r) (task_tbl p)\<rparr>"
  from PackageTask_remove_result[OF tables, of "task_of_row r"] obtain s' where
    rm: "PackageTask_remove (task_of_row r) s = (Inr (), s')" and cl': "clean (db s')"
    and t': "package_tables_of (working (db s')) = Inr ?p'"
    by (auto simp: task_of_row_def)
  have asc': "sorted_wrt (<) (map task_row_id (task_tbl ?p'))"
    using asc by (simp add: ascending_filter)
  have "queue_rows q ?p' = rs" using dist hd by (rule queue_rows_remove_head)
  with g rm cl' t' asc' show ?thesis by auto
qed

lemma dequeue_empty:
  assumes cl: "clean (db s)" and tables: "package_tables_of (working (db s)) = Inr p"
    and asc: "sorted_wrt (<) (map task_row_id (task_tbl p))"
    and hd: "queue_rows q p = []"
  shows "get_next_task s q = (Inr None, s)"
  using get_next_task_queue_rows[OF cl tables ascending_distinct[OF asc], of q] hd by simp

text \<open>
  Claim C4. On a store whose task ids ascend in the order of insertion (as the ids the
  engine assigns do), \<open>get_next_task\<close> returns \<open>None\<close> for a queue without tasks, and
  otherwise the task of the queue with the smallest timestamp and, among those, the
  smallest id. Hence three tasks enqueued one after the other into a queue without
  tasks, the clock not running backwards between the calls, are returned in the order
  they were enqueued, each after the removal of the one before, and then \<open>None\<close>.
\<close>

theorem get_next_task_oldest_first:
  assumes tables: "package_tables_of (working (db self)) = Inr p"
    and asc: "sorted_wrt (<) (map task_row_id (task_tbl p))"
  shows "((\<forall>r\<in>set (task_tbl p). task_row_queue r \<noteq> q) \<longrightarrow>
            fst (get_next_task self q) = Inr None) \<and>
     ((\<exists>r\<in>set (task_tbl p). task_row_queue r = q) \<longrightarrow>
        (\<exists>r\<in>set (task_tbl p). task_row_queue r = q \<and>
           fst (get_next_task self q) = Inr (Some (task_of_row r)) \<and>
           (\<forall>r'\<in>set (task_tbl p). task_row_queue r' = q \<longrightarrow>
              task_row_timestamp r < task_row_timestamp r' \<or>
              (task_row_timestamp r = task_row_timestamp r' \<and> task_row_id r \<le> task_row_id r')))) \<and>
     ((\<forall>r\<in>set (task_tbl p). task_row_queue r \<noteq> q) \<and> tA \<le> tB \<and> tB \<le> tC \<longrightarrow>
        (\<exists>a b c s1 s2 s3 s4 s5 s6.
           add_task self q dA tA = (Inr a, s1) \<and> add_task s1 q dB tB = (Inr b, s2) \<and>
           add_task s2 q dC tC = (Inr c, s3) \<and>
           data a = dA \<and> data b = dB \<and> data c = dC \<and>
           get_next_task s3 q = (Inr (Some a), s3) \<and> PackageTask_remove a s3 = (Inr (), s4) \<and>
           get_next_task s4 q = (Inr (Some b), s4) \<and> PackageTask_remove b s4 = (Inr (), s5) \<and>
           get_next_task s5 q = (Inr (Some c), s5) \<and> PackageTask_remove c s5 = (Inr (), s6) \<and>
           get_next_task s6 q = (Inr None, s6)))"
proof (intro conjI impI)
  from asc have dist: "distinct (map task_row_id (task_tbl p))" by (rule ascending_distinct)
  note fst_eq = get_next_task_fst[OF tables dist, of q]
  {
    assume "\<forall>r\<in>set (task_tbl p). task_row_queue r \<noteq> q"
    then have "queue_rows q p = []" by (simp add: queue_rows_empty_iff)
    with fst_eq show "fst (get_next_task self q) = Inr None" by simp
  }
  {
    assume "\<exists>r\<in>set (task_tbl p). task_row_queue r = q"
    then have "queue_rows q p \<noteq> []" by (simp add: queue_rows_empty_iff)
    then obtain r rs where hd: "queue_rows q p = r # rs" by (cases "queue_rows q p") auto
    then have "r \<in> set (queue_rows q p)" by simp
    then have mem: "r \<in> set (task_tbl p)" "task_row_queue r = q" by (simp_all add: queue_rows_def)
    from fst_eq hd have "fst (get_next_task self q) = Inr (Some (task_of_row r))" by simp
    with mem queue_rows_head_least[OF asc hd]
    show "\<exists>r\<in>set (task_tbl p). task_row_queue r = q \<and>
           fst (get_next_task self q) = Inr (Some (task_of_row r)) \<and>
           (\<forall>r'\<in>set (task_tbl p). task_row_queue r' = q \<longrightarrow>
              task_row_timestamp r < task_row_timestamp r' \<or>
              (task_row_timestamp r = task_row_timestamp r' \<and> task_row_id r \<le> task_row_id r'))"
      by blast
  }
  {
    assume a: "(\<forall>r\<in>set (task_tbl p). task_row_queue r \<noteq> q) \<and> tA \<le> tB \<and> tB \<le> tC"
    then have q0: "queue_rows q p = []" by (simp add: queue_rows_empty_iff)
    have lateA: "\<forall>r\<in>set (queue_rows q p). task_row_timestamp r \<le> tA"
      using q0 by simp
    from enqueue_step[OF tables asc lateA, of dA] obtain s1 p1 rA where
      addA: "add_task self q dA tA = (Inr (task_of_row rA), s1)"
      and dA: "data (task_of_row rA) = dA" and tsA: "task_row_timestamp rA = tA"
      and t1: "package_tables_of (working (db s1)) = Inr p1"
      and asc1: "sorted_wrt (<) (map task_row_id (task_tbl p1))"
      and q1': "queue_rows q p1 = queue_rows q p @ [rA]" by blast
    from q1' q0 have q1: "queue_rows q p1 = [rA]" by simp
    have lateB: "\<forall>r\<in>set (queue_rows q p1). task_row_timestamp r \<le> tB"
      using q1 tsA a by simp
    from enqueue_step[OF t1 asc1 lateB, of dB] obtain s2 p2 rB where
      addB: "add_task s1 q dB tB = (Inr (task_of_row rB), s2)"
      and dB: "data (task_of_row rB) = dB" and tsB: "task_row_timestamp rB = tB"
      and t2: "package_tables_of (working (db s2)) = Inr p2"
      and asc2: "sorted_wrt (<) (map task_row_id (task_tbl p2))"
      and q2': "queue_rows q p2 = queue_rows q p1 @ [rB]" by blast
    from q2' q1 have q2: "queue_rows q p2 = [rA, rB]" by simp
    have lateC: "\<forall>r\<in>set (queue_rows q p2). task_row_timestamp r \<le> tC"
      using q2 tsA tsB a by simp
    from enqueue_step[OF t2 asc2 lateC, of dC] obtain s3 p3 rC where
      addC: "add_task s2 q dC tC = (Inr (task_of_row rC), s3)"
      and dC: "data (task_of_row rC) = dC"
      and cl3: "clean (db s3)"
      and t3: "package_tables_of (working (db s3)) = Inr p3"
      and asc3: "sorted_wrt (<) (map task_row_id (task_tbl p3))"
      and q3': "queue_rows q p3 = queue_rows q p2 @ [rC]" by blast
    from q3' q2 have q3: "queue_rows q p3 = [rA, rB, rC]" by simp
    from dequeue_step[OF cl3 t3 asc3 q3] obtain s4 p4 where
      getA: "get_next_task s3 q = (Inr (Some (task_of_row rA)), s3)"
      and rmA: "PackageTask_remove (task_of_row rA) s3 = (Inr (), s4)"
      and cl4: "clean (db s4)"
      and t4: "package_tables_of (working (db s4)) = Inr p4"
      and asc4: "sorted_wrt (<) (map task_row_id (task_tbl p4))"
      and q4: "queue_rows q p4 = [rB, rC]" by blast
    from dequeue_step[OF cl4 t4 asc4 q4] obtain s5 p5 where
      getB: "get_next_task s4 q = (Inr (Some (task_of_row rB)), s4)"
      and rmB: "PackageTask_remove (task_of_row rB) s4 = (Inr (), s5)"
      and cl5: "clean (db s5)"
      and t5: "package_tables_of (working (db s5)) = Inr p5"
      and asc5: "sorted_wrt (<) (map task_row_id (task_tbl p5))"
      and q5: "queue_rows q p5 = [rC]" by blast
    from dequeue_step[OF cl5 t5 asc5 q5] obtain s6 p6 where
      getC: "get_next_task s5 q = (Inr (Some (task_of_row rC)), s5)"
      and rmC: "PackageTask_remove (task_of_row rC) s5 = (Inr (), s6)"
      and cl6: "clean (db s6)"
      and t6: "package_tables_of (working (db s6)) = Inr p6"
      and asc6: "sorted_wrt (<) (map task_row_id (task_tbl p6))"
      and q6: "queue_rows q p6 = []" by blast
    from dequeue_empty[OF cl6 t6 asc6 q6] have getN: "get_next_task s6 q = (Inr None, s6)" .
    from addA addB addC dA dB dC getA rmA getB rmB getC rmC getN
    show "\<exists>a b c s1 s2 s3 s4 s5 s6.
           add_task self q dA tA = (Inr a, s1) \<and> add_task s1 q dB tB = (Inr b, s2) \<and>
           add_task s2 q dC tC = (Inr c, s3) \<and>
           data a = dA \<and> data b = dB \<and> data c = dC \<and>
           get_next_task s3 q = (Inr (Some a), s3) \<and> PackageTask_remove a s3 = (Inr (), s4) \<and>
           get_next_task s4 q = (Inr (Some b), s4) \<and> PackageTask_remove b s4 = (Inr (), s5) \<and>
           get_next_task s5 q = (Inr (Some c), s5) \<and> PackageTask_remove c s5 = (Inr (), s6) \<and>
           get_next_task s6 q = (Inr None, s6)"
      by blast
  }
qed

lemmas task_simps = empty_package_tables_def connect_def connection_on_def
  package_tables_of_def set_package_tables_def

text \<open>
  In the example store the queue \<open>default\<close> holds the tasks 2 and 3 with the same,
  smallest timestamp: task 2 is next. Three tasks enqueued at the same time into the
  empty queue of the store without tasks come back in the order they were enqueued.
\<close>

theorem get_next_task_oldest_first_witness:
  "fst (get_next_task example_task_store ''default'') =
     Inr (Some \<lparr>task_id = 2, queue = ''default'', timestamp = 10, data = PyInt 1\<rparr>) \<and>
   fst (get_next_task example_task_store ''nobody'') = Inr None \<and>
   (\<exists>a b c s1 s2 s3 s4 s5 s6.
      add_task example_store ''default'' (PyInt 0) 10 = (Inr a, s1) \<and>
      add_task s1 ''default'' (PyInt 1) 10 = (Inr b, s2) \<and>
      add_task s2 ''default'' (PyInt 2) 10 = (Inr c, s3) \<and>
      data a = PyInt 0 \<and> data b = PyInt 1 \<and> data c = PyInt 2 \<and>
      get_next_task s3 ''default'' = (Inr (Some a), s3) \<and>
      PackageTask_remove a s3 = (Inr (), s4) \<and>
      get_next_task s4 ''default'' = (Inr (Some b), s4) \<and>
      PackageTask_remove b s4 = (Inr (), s5) \<and>
      get_next_task s5 ''default'' = (Inr (Some c), s5) \<and>
      PackageTask_remove c s5 = (Inr (), s6) \<and>
      get_next_task s6 ''default'' = (Inr None, s6))"
proof -
  let ?p = "empty_package_tables\<lparr>task_tbl := example_task_rows\<rparr>"
  have t: "package_tables_of (working (db example_task_store)) = Inr ?p"
    by (simp add: example_task_store_def connect_def connection_on_def package_tables_of_def)
  have asc: "sorted_wrt (<) (map task_row_id (task_tbl ?p))"
    by (simp add: example_task_rows_def)
  note oldest = get_next_task_oldest_first[OF t asc]
  have "\<exists>r\<in>set (task_tbl ?p). task_row_queue r = ''default''"
    by (simp add: example_task_rows_def)
  with oldest[of "''default''"] obtain r where
    r: "r \<in> set (task_tbl ?p)" "task_row_queue r = ''default''"
    and g: "fst (get_next_task example_task_store ''default'') = Inr (Some (task_of_row r))"
    and least: "\<forall>r'\<in>set (task_tbl ?p). task_row_queue r' = ''default'' \<longrightarrow>
              task_row_timestamp r < task_row_timestamp r' \<or>
              (task_row_timestamp r = task_row_timestamp r' \<and> task_row_id r \<le> task_row_id r')"
    by blast
  from r least have "r = \<lparr>task_row_id = 2, task_row_queue = ''default'', task_row_timestamp = 10,
       task_row_data = Pickled (PyInt 1)\<rparr>"
    by (auto simp: example_task_rows_def)
  with g have a: "fst (get_next_task example_task_store ''default'') =
     Inr (Some \<lparr>task_id = 2, queue = ''default'', timestamp = 10, data = PyInt 1\<rparr>)"
    by (simp add: task_of_row_def)
  have "\<forall>r\<in>set (task_tbl ?p). task_row_queue r \<noteq> ''nobody''"
    by (simp add: example_task_rows_def)
  with oldest[of "''nobody''"] have b: "fst (get_next_task example_task_store ''nobody'') = Inr None"
    by blast
  have t0: "package_tables_of (working (db example_store)) = Inr empty_package_tables"
    by (simp add: example_store_def example_package_db_def connect_def connection_on_def package_tables_of_def)
  have asc0: "sorted_wrt (<) (map task_row_id (task_tbl empty_package_tables))"
    by (simp add: empty_package_tables_def)
  have h0: "(\<forall>r\<in>set (task_tbl empty_package_tables). task_row_queue r \<noteq> ''default'') \<and>
     (10 :: real) \<le> 10 \<and> (10 :: real) \<le> 10"
    by (simp add: empty_package_tables_def)
  from get_next_task_oldest_first[OF t0 asc0, of "''default''" 10 10 10 "PyInt 0" "PyInt 1" "PyInt 2"] h0
  have c: "\<exists>a b c s1 s2 s3 s4 s5 s6.
      add_task example_store ''default'' (PyInt 0) 10 = (Inr a, s1) \<and>
      add_task s1 ''default'' (PyInt 1) 10 = (Inr b, s2) \<and>
      add_task s2 ''default'' (PyInt 2) 10 = (Inr c, s3) \<and>
      data a = PyInt 0 \<and> data b = PyInt 1 \<and> data c = PyInt 2 \<and>
      get_next_task s3 ''default'' = (Inr (Some a), s3) \<and>
      PackageTask_remove a s3 = (Inr (), s4) \<and>
      get_next_task s4 ''default'' = (Inr (Some b), s4) \<and>
      PackageTask_remove b s4 = (Inr (), s5) \<and>
      get_next_task s5 ''default'' = (Inr (Some c), s5) \<and>
      PackageTask_remove c s5 = (Inr (), s6) \<and>
      get_next_task s6 ''default'' = (Inr None, s6)"
    by blast
  from a b c show ?thesis by blast
qed

text \<open>
  Claim C1, amended. \<open>clear_tasks\<close> takes no queue. It deletes every task, of
  whichever queue, whose id is not the id of a task in \<open>except_tasks\<close>: after the call
  every queue holds precisely those of its tasks that were listed.
\<close>

theorem clear_tasks_keeps_listed:
  assumes "package_tables_of (working (db self)) = Inr p"
  shows "\<exists>self' p'. clear_tasks self except_tasks = (Inr (), self') \<and>
     committed (db self') = working (db self') \<and>
     package_tables_of (working (db self')) = Inr p' \<and>
     (\<forall>r. r \<in> set (task_tbl p') \<longleftrightarrow>
        r \<in> set (task_tbl p) \<and> task_row_id r \<in> task_id ` set except_tasks) \<and>
     (\<forall>q. filter (\<lambda>r. task_row_queue r = q) (task_tbl p') =
        filter (\<lambda>r. task_row_id r \<in> task_id ` set except_tasks)
          (filter (\<lambda>r. task_row_queue r = q) (task_tbl p)))"
proof -
  from clear_tasks_result[OF assms, of except_tasks] obtain self' where
    run: "clear_tasks self except_tasks = (Inr (), self')" and cl: "clean (db self')"
    and t: "package_tables_of (working (db self')) =
       Inr (p\<lparr>task_tbl :=
              filter (\<lambda>r. task_row_id r \<in> task_id ` set except_tasks) (task_tbl p)\<rparr>)"
    by blast
  let ?p' = "p\<lparr>task_tbl :=
              filter (\<lambda>r. task_row_id r \<in> task_id ` set except_tasks) (task_tbl p)\<rparr>"
  have "filter (\<lambda>r. task_row_queue r = q) (task_tbl ?p') =
        filter (\<lambda>r. task_row_id r \<in> task_id ` set except_tasks)
          (filter (\<lambda>r. task_row_queue r = q) (task_tbl p))" for q
    by (simp add: conj_commute)
  moreover have "r \<in> set (task_tbl ?p') \<longleftrightarrow>
        r \<in> set (task_tbl p) \<and> task_row_id r \<in> task_id ` set except_tasks" for r
    by simp
  ultimately have "clear_tasks self except_tasks = (Inr (), self') \<and>
     committed (db self') = working (db self') \<and>
     package_tables_of (working (db self')) = Inr ?p' \<and>
     (\<forall>r. r \<in> set (task_tbl ?p') \<longleftrightarrow>
        r \<in> set (task_tbl p) \<and> task_row_id r \<in> task_id ` set except_tasks) \<and>
     (\<forall>q. filter (\<lambda>r. task_row_queue r = q) (task_tbl ?p') =
        filter (\<lambda>r. task_row_id r \<in> task_id ` set except_tasks)
          (filter (\<lambda>r. task_row_queue r = q) (task_tbl p)))"
    using run cl t unfolding clean_def by simp
  then show ?thesis by (intro exI)
qed

lemmas task_eval = get_next_task_def get_next_task_body_def select_task_ids_def
  PackageTask_init_def clear_tasks_def clear_tasks_body_def on_db_def with_cursor_def
  commit_def rollback_def

text \<open>
  Claim C1 as stated fails for a task of another queue: clearing with only task 2 of
  the queue \<open>default\<close> listed deletes task 4 of the queue \<open>other\<close>.
\<close>

theorem clear_tasks_other_queue_counterexample:
  "fst (get_next_task example_task_store ''other'') =
     Inr (Some \<lparr>task_id = 4, queue = ''other'', timestamp = 5, data = PyInt 3\<rparr>) \<and>
   fst (clear_tasks example_task_store
     [\<lparr>task_id = 2, queue = ''default'', timestamp = 10, data = PyInt 1\<rparr>]) = Inr () \<and>
   fst (get_next_task (snd (clear_tasks example_task_store
     [\<lparr>task_id = 2, queue = ''default'', timestamp = 10, data = PyInt 1\<rparr>])) ''other'') = Inr None"
  by (simp add: task_simps task_eval example_task_store_def example_task_rows_def)

text \<open>
  In the example store, clearing with task 2 listed leaves task 2 and nothing else.
\<close>

theorem clear_tasks_keeps_listed_witness:
  "\<exists>self' p'. clear_tasks example_task_store
       [\<lparr>task_id = 2, queue = ''default'', timestamp = 10, data = PyInt 1\<rparr>] = (Inr (), self') \<and>
     package_tables_of (working (db self')) = Inr p' \<and>
     task_tbl p' = [\<lparr>task_row_id = 2, task_row_queue = ''default'', task_row_timestamp = 10,
       task_row_data = Pickled (PyInt 1)\<rparr>]"
proof -
  define E where "E = [\<lparr>task_id = 2, queue = ''default'', timestamp = 10, data = PyInt 1\<rparr>]"
  define p where "p = empty_package_tables\<lparr>task_tbl := example_task_rows\<rparr>"
  define r2 where "r2 = \<lparr>task_row_id = 2, task_row_queue = ''default'', task_row_timestamp = 10,
       task_row_data = Pickled (PyInt 1)\<rparr>"
  have t: "package_tables_of (working (db example_task_store)) = Inr p"
    by (simp add: example_task_store_def connect_def connection_on_def package_tables_of_def p_def)
  from clear_tasks_keeps_listed[OF t, of E] obtain self' p' where
    run: "clear_tasks example_task_store E = (Inr (), self')"
    and t': "package_tables_of (working (db self')) = Inr p'"
    and mem: "\<forall>r. r \<in> set (task_tbl p') \<longleftrightarrow>
        r \<in> set (task_tbl p) \<and> task_row_id r \<in> task_id ` set E"
    and byq: "\<forall>q. filter (\<lambda>r. task_row_queue r = q) (task_tbl p') =
        filter (\<lambda>r. task_row_id r \<in> task_id ` set E)
          (filter (\<lambda>r. task_row_queue r = q) (task_tbl p))"
    by (elim exE conjE)
  have kept: "filter (\<lambda>r. task_row_id r \<in> task_id ` set E)
          (filter (\<lambda>r. task_row_queue r = ''default'') (task_tbl p)) = [r2]"
    by (simp add: example_task_rows_def p_def E_def r2_def)
  from byq have "filter (\<lambda>r. task_row_queue r = ''default'') (task_tbl p') =
        filter (\<lambda>r. task_row_id r \<in> task_id ` set E)
          (filter (\<lambda>r. task_row_queue r = ''default'') (task_tbl p))" by (rule spec)
  with kept have d: "filter (\<lambda>r. task_row_queue r = ''default'') (task_tbl p') = [r2]"
    by simp
  have only: "r \<in> set (task_tbl p) \<and> task_row_id r \<in> task_id ` set E \<longrightarrow>
      task_row_queue r = ''default''" for r
    by (auto simp: example_task_rows_def p_def E_def)
  with mem have "\<forall>r\<in>set (task_tbl p'). task_row_queue r = ''default''" by blast
  then have "filter (\<lambda>r. task_row_queue r = ''default'') (task_tbl p') = task_tbl p'"
    by simp
  with d have "task_tbl p' = [r2]" by simp
  with run t' show ?thesis unfolding E_def r2_def by (intro exI conjI)
qed

subsection \<open>Draining the queue\<close>

lemma get_next_task_Some:
  assumes "get_next_task store q = (Inr (Some task), store1)"
  shows "working (db store1) = working (db store) \<and>
     (\<exists>p. package_tables_of (working (db store)) = Inr p \<and>
        (\<exists>r\<in>set (task_tbl p). task_row_id r = task_id task))"
proof -
  from assms have wc: "with_cursor (get_next_task_body q) (db store) = (Inr (Some task), db store1)"
    by (auto simp: get_next_task_def dest: on_db_result)
  from with_cursor_Inr[OF wc]
  have body: "get_next_task_body q (working (db store)) = (Inr (Some task), committed (db store1))"
    and w: "working (db store1) = committed (db store1)" by simp_all
  have "snd (get_next_task_body q (working (db store))) = working (db store)"
    by (simp add: get_next_task_body_def split: sum.splits option.splits)
  with body w have same: "working (db store1) = working (db store)" by simp
  from body obtain p where p: "package_tables_of (working (db store)) = Inr p"
    by (cases "package_tables_of (working (db store))") (auto simp: get_next_task_body_def)
  from body p obtain i where "PackageTask_init (working (db store)) i = Inr task"
    by (auto simp: get_next_task_body_def split: option.splits sum.splits)
  with p obtain r where "fetchone (filter (\<lambda>r. task_row_id r = i) (task_tbl p)) = Some r"
    and i: "task_id task = i"
    by (auto simp: PackageTask_init_def split: option.splits)
  then have "r \<in> set (filter (\<lambda>r. task_row_id r = i) (task_tbl p))"
    by (cases "filter (\<lambda>r. task_row_id r = i) (task_tbl p)") auto
  with i have "r \<in> set (task_tbl p)" "task_row_id r = task_id task" by auto
  with same p show ?thesis by blast
qed

lemma length_filter_less_mem:
  "x \<in> set xs \<Longrightarrow> \<not> P x \<Longrightarrow> length (filter P xs) < length xs"
  by (induction xs) (auto simp: less_Suc_eq_le)

lemma drain_step_decreases:
  assumes "get_next_task store q = (Inr (Some task), store1)"
    and "PackageTask_remove task store1 = (Inr u, store2)"
  shows "task_count store2 < task_count store"
proof -
  from get_next_task_Some[OF assms(1)] obtain p r where
    same: "working (db store1) = working (db store)"
    and p: "package_tables_of (working (db store)) = Inr p"
    and r: "r \<in> set (task_tbl p)" "task_row_id r = task_id task" by blast
  from same p have p1: "package_tables_of (working (db store1)) = Inr p" by simp
  from PackageTask_remove_result[OF p1, of task] assms(2)
  have "package_tables_of (working (db store2)) =
       Inr (p\<lparr>task_tbl := filter (\<lambda>r. task_row_id r \<noteq> task_id task) (task_tbl p)\<rparr>)"
    by auto
  moreover have "length (filter (\<lambda>r. task_row_id r \<noteq> task_id task) (task_tbl p)) < length (task_tbl p)"
    using r by (intro length_filter_less_mem[of r]) simp_all
  ultimately show ?thesis using p by (simp add: task_count_def)
qed

termination handle_tasks
proof (relation "measure (\<lambda>(handle_task, queue_name, store). task_count store)")
  show "wf (measure (\<lambda>(handle_task, queue_name, store). task_count store))" by simp
next
  fix handle_task :: "PackageTask \<Rightarrow> 'x option" and queue_name store x1 store1 x2a task x1a store2 u
  assume "(x1, store1) = get_next_task store queue_name" "x1 = Inr x2a" "x2a = Some task"
    "handle_task task = None" "(x1a, store2) = PackageTask_remove task store1" "x1a = Inr u"
  then have "get_next_task store queue_name = (Inr (Some task), store1)"
    "PackageTask_remove task store1 = (Inr u, store2)" by simp_all
  then have "task_count store2 < task_count store" by (rule drain_step_decreases)
  then show "((handle_task, queue_name, store2), handle_task, queue_name, store)
      \<in> measure (\<lambda>(handle_task, queue_name, store). task_count store)" by simp
qed

declare handle_tasks.simps [simp del]

lemma drain_until_failure:
  assumes "clean (db store)" "package_tables_of (working (db store)) = Inr p"
    and "sorted_wrt (<) (map task_row_id (task_tbl p))"
    and "queue_rows q p = pre @ r # post"
    and "\<forall>x\<in>set pre. handle_task (task_of_row x) = None"
    and "handle_task (task_of_row r) = Some e"
  shows "\<exists>store' p'.
     handle_tasks handle_task q store = (FAILED e, map task_of_row (pre @ [r]), store') \<and>
     clean (db store') \<and> package_tables_of (working (db store')) = Inr p' \<and>
     task_tbl p' = filter (\<lambda>x. task_row_id x \<notin> task_row_id ` set pre) (task_tbl p) \<and>
     queue_rows q p' = r # post \<and>
     get_next_task store' q = (Inr (Some (task_of_row r)), store')"
  using assms
proof (induction pre arbitrary: store p)
  case Nil
  then have hd: "queue_rows q p = r # post" by simp
  from dequeue_step[OF Nil.prems(1,2,3) hd]
  have g: "get_next_task store q = (Inr (Some (task_of_row r)), store)" by simp
  with Nil.prems(6) have "handle_tasks handle_task q store = (FAILED e, [task_of_row r], store)"
    by (simp add: handle_tasks.simps[of handle_task q store])
  with g hd Nil.prems(1,2) show ?case by simp
next
  case (Cons x pre)
  then have hd: "queue_rows q p = x # (pre @ r # post)" by simp
  from dequeue_step[OF Cons.prems(1,2,3) hd] obtain store1 p1 where
    g: "get_next_task store q = (Inr (Some (task_of_row x)), store)"
    and rm: "PackageTask_remove (task_of_row x) store = (Inr (), store1)"
    and cl1: "clean (db store1)" and t1: "package_tables_of (working (db store1)) = Inr p1"
    and asc1: "sorted_wrt (<) (map task_row_id (task_tbl p1))"
    and tbl1: "task_tbl p1 = filter (\<lambda>y. task_row_id y \<noteq> task_row_id x) (task_tbl p)"
    and q1: "queue_rows q p1 = pre @ r # post" by blast
  from Cons.prems(5) have ok: "handle_task (task_of_row x) = None"
    and rest: "\<forall>x\<in>set pre. handle_task (task_of_row x) = None" by simp_all
  from Cons.IH[OF cl1 t1 asc1 q1 rest Cons.prems(6)] obtain store' p' where
    run: "handle_tasks handle_task q store1 = (FAILED e, map task_of_row (pre @ [r]), store')"
    and cl': "clean (db store')" and t': "package_tables_of (working (db store')) = Inr p'"
    and tbl': "task_tbl p' = filter (\<lambda>y. task_row_id y \<notin> task_row_id ` set pre) (task_tbl p1)"
    and q': "queue_rows q p' = r # post"
    and g': "get_next_task store' q = (Inr (Some (task_of_row r)), store')" by blast
  from g ok rm run
  have "handle_tasks handle_task q store =
     (FAILED e, map task_of_row ((x # pre) @ [r]), store')"
    by (simp add: handle_tasks.simps[of handle_task q store])
  moreover from tbl' tbl1
  have "task_tbl p' = filter (\<lambda>y. task_row_id y \<notin> task_row_id ` set (x # pre)) (task_tbl p)"
    by (simp add: conj_commute)
  ultimately show ?case using cl' t' q' g' by blast
qed

lemma drain_all:
  assumes "clean (db store)" "package_tables_of (working (db store)) = Inr p"
    and "sorted_wrt (<) (map task_row_id (task_tbl p))"
    and "queue_rows q p = rows"
    and "\<forall>x\<in>set rows. handle_task (task_of_row x) = None"
  shows "\<exists>store' p'.
     handle_tasks handle_task q store = (DONE, map task_of_row rows, store') \<and>
     package_tables_of (working (db store')) = Inr p' \<and>
     task_tbl p' = filter (\<lambda>x. task_row_id x \<notin> task_row_id ` set rows) (task_tbl p) \<and>
     get_next_task store' q = (Inr None, store')"
  using assms
proof (induction rows arbitrary: store p)
  case Nil
  from dequeue_empty[OF Nil.prems(1,2,3,4)]
  have g: "get_next_task store q = (Inr None, store)" .
  then have "handle_tasks handle_task q store = (DONE, [], store)"
    by (simp add: handle_tasks.simps[of handle_task q store])
  with g Nil.prems(2) show ?case by simp
next
  case (Cons x rows)
  from dequeue_step[OF Cons.prems(1,2,3,4)] obtain store1 p1 where
    g: "get_next_task store q = (Inr (Some (task_of_row x)), store)"
    and rm: "PackageTask_remove (task_of_row x) store = (Inr (), store1)"
    and cl1: "clean (db store1)" and t1: "package_tables_of (working (db store1)) = Inr p1"
    and asc1: "sorted_wrt (<) (map task_row_id (task_tbl p1))"
    and tbl1: "task_tbl p1 = filter (\<lambda>y. task_row_id y \<noteq> task_row_id x) (task_tbl p)"
    and q1: "queue_rows q p1 = rows" by blast
  from Cons.prems(5) have ok: "handle_task (task_of_row x) = None"
    and rest: "\<forall>x\<in>set rows. handle_task (task_of_row x) = None" by simp_all
  from Cons.IH[OF cl1 t1 asc1 q1 rest] obtain store' p' where
    run: "handle_tasks handle_task q store1 = (DONE, map task_of_row rows, store')"
    and t': "package_tables_of (working (db store')) = Inr p'"
    and tbl': "task_tbl p' = filter (\<lambda>y. task_row_id y \<notin> task_row_id ` set rows) (task_tbl p1)"
    and g': "get_next_task store' q = (Inr None, store')" by blast
  from g ok rm run
  have "handle_tasks handle_task q store = (DONE, map task_of_row (x # rows), store')"
    by (simp add: handle_tasks.simps[of handle_task q store])
  moreover from tbl' tbl1
  have "task_tbl p' = filter (\<lambda>y. task_row_id y \<notin> task_row_id ` set (x # rows)) (task_tbl p)"
    by (simp add: conj_commute)
  ultimately show ?case using t' g' by blast
qed

text \<open>
  Claim C2. When the per-task operation fails for a task of the queue and succeeds for
  all tasks before it in the order of \<open>get_next_task\<close>, the run ends in FAILED with that
  failure; the operation was invoked on the tasks before it and on the failing task, and
  on no task after it; the tasks before it are deleted and no other row of the task
  table is; and \<open>get_next_task\<close> on the queue returns the failing task after the run.
\<close>

theorem handle_tasks_stops_at_failure:
  assumes "clean (db store)" "package_tables_of (working (db store)) = Inr p"
    and "sorted_wrt (<) (map task_row_id (task_tbl p))"
    and "queue_rows q p = pre @ r # post"
    and "\<forall>x\<in>set pre. handle_task (task_of_row x) = None"
    and "handle_task (task_of_row r) = Some e"
  shows "\<exists>store' p'.
     handle_tasks handle_task q store = (FAILED e, map task_of_row pre @ [task_of_row r], store') \<and>
     package_tables_of (working (db store')) = Inr p' \<and>
     committed (db store') = working (db store') \<and>
     task_tbl p' = filter (\<lambda>x. task_row_id x \<notin> task_row_id ` set pre) (task_tbl p) \<and>
     queue_rows q p' = r # post \<and>
     get_next_task store' q = (Inr (Some (task_of_row r)), store')"
proof -
  from drain_until_failure[OF assms] obtain store' p' where
    "handle_tasks handle_task q store = (FAILED e, map task_of_row (pre @ [r]), store')"
    "clean (db store')" "package_tables_of (working (db store')) = Inr p'"
    "task_tbl p' = filter (\<lambda>x. task_row_id x \<notin> task_row_id ` set pre) (task_tbl p)"
    "queue_rows q p' = r # post"
    "get_next_task store' q = (Inr (Some (task_of_row r)), store')" by blast
  then show ?thesis by (intro exI[of _ store'] exI[of _ p']) (simp add: clean_def)
qed

lemma example_drain_store_eq:
  "example_drain_store =
     \<lparr>filename = ''database'',
      db = connection_on (Db \<lparr>hash_tbl = Some (HashRows [(5, ''h'')]),
             package_tbls = Some (empty_package_tables\<lparr>task_tbl :=
               [\<lparr>task_row_id = 1, task_row_queue = ''default'', task_row_timestamp = 1,
                 task_row_data = Pickled (PyInt 0)\<rparr>,
                \<lparr>task_row_id = 2, task_row_queue = ''default'', task_row_timestamp = 2,
                 task_row_data = Pickled (PyInt 1)\<rparr>,
                \<lparr>task_row_id = 3, task_row_queue = ''default'', task_row_timestamp = 3,
                 task_row_data = Pickled (PyInt 2)\<rparr>]\<rparr>)\<rparr>),
      hash_id_stores = []\<rparr>"
  by (simp add: example_drain_store_def example_store_def example_package_db_def
      empty_package_tables_def connect_def connection_on_def package_tables_of_def set_package_tables_def
      add_task_def add_task_body_def on_db_def with_cursor_def commit_def
      PackageTask_init_def next_rowid_def Let_def bpickle_dumps_def)

text \<open>
  The scenario of the spec: the run fails with the failure of the task with payload 1;
  the operation was invoked on the payloads 0 and 1; the task with payload 1 is next in
  the queue afterwards, and the tasks 2 and 3 (payloads 1 and 2) are still stored.
\<close>

theorem handle_tasks_stops_at_failure_witness:
  "fst (handle_tasks example_handle_task ''default'' example_drain_store) = FAILED ''MyException'' \<and>
   map data (fst (snd (handle_tasks example_handle_task ''default'' example_drain_store))) =
     [PyInt 0, PyInt 1] \<and>
   fst (get_next_task
     (snd (snd (handle_tasks example_handle_task ''default'' example_drain_store))) ''default'') =
     Inr (Some \<lparr>task_id = 2, queue = ''default'', timestamp = 2, data = PyInt 1\<rparr>) \<and>
   map_sum id (\<lambda>p. map task_row_id (task_tbl p))
     (package_tables_of (working (db
        (snd (snd (handle_tasks example_handle_task ''default'' example_drain_store)))))) =
     Inr [2, 3]"
proof -
  define r0 where "r0 = \<lparr>task_row_id = 1, task_row_queue = ''default'', task_row_timestamp = 1,
                 task_row_data = Pickled (PyInt 0)\<rparr>"
  define r1 where "r1 = \<lparr>task_row_id = 2, task_row_queue = ''default'', task_row_timestamp = 2,
                 task_row_data = Pickled (PyInt 1)\<rparr>"
  define r2 where "r2 = \<lparr>task_row_id = 3, task_row_queue = ''default'', task_row_timestamp = 3,
                 task_row_data = Pickled (PyInt 2)\<rparr>"
  define p where "p = empty_package_tables\<lparr>task_tbl := [r0, r1, r2]\<rparr>"
  have h1: "clean (db example_drain_store)"
    by (simp add: example_drain_store_eq connect_def connection_on_def clean_def)
  have h2: "package_tables_of (working (db example_drain_store)) = Inr p"
    by (simp add: example_drain_store_eq connect_def connection_on_def package_tables_of_def p_def r0_def r1_def r2_def)
  have h3: "sorted_wrt (<) (map task_row_id (task_tbl p))"
    by (simp add: p_def r0_def r1_def r2_def)
  have h4: "queue_rows ''default'' p = [r0] @ r1 # [r2]"
    by (simp add: queue_rows_def p_def r0_def r1_def r2_def)
  have h5: "\<forall>x\<in>set [r0]. example_handle_task (task_of_row x) = None"
    by (simp add: example_handle_task_def task_of_row_def r0_def)
  have h6: "example_handle_task (task_of_row r1) = Some ''MyException''"
    by (simp add: example_handle_task_def task_of_row_def r1_def)
  from handle_tasks_stops_at_failure[OF h1 h2 h3 h4 h5 h6] obtain store' p' where
    run: "handle_tasks example_handle_task ''default'' example_drain_store =
       (FAILED ''MyException'', map task_of_row [r0] @ [task_of_row r1], store')"
    and t': "package_tables_of (working (db store')) = Inr p'"
    and tbl': "task_tbl p' = filter (\<lambda>x. task_row_id x \<notin> task_row_id ` set [r0]) (task_tbl p)"
    and g': "get_next_task store' ''default'' = (Inr (Some (task_of_row r1)), store')"
    by blast
  from tbl' have ids: "map task_row_id (task_tbl p') = [2, 3]"
    by (simp add: p_def r0_def r1_def r2_def)
  have d: "map data (map task_of_row [r0] @ [task_of_row r1]) = [PyInt 0, PyInt 1]"
    by (simp add: task_of_row_def r0_def r1_def)
  have t1: "task_of_row r1 = \<lparr>task_id = 2, queue = ''default'', timestamp = 2, data = PyInt 1\<rparr>"
    by (simp add: task_of_row_def r1_def)
  show ?thesis
    unfolding run fst_conv snd_conv g' t' t1 using ids d by simp
qed

subsection \<open>Hash id requests\<close>

declare list_of_generator.simps [simp del]

lemma list_of_generator_Suspended:
  "list_of_generator c f (Suspended rows) = Inr (map HashIDRequest rows)"
proof (induction rows)
  case Nil
  show ?case by (simp add: list_of_generator.simps[of c f "Suspended []"])
next
  case (Cons i rows)
  then show ?case by (simp add: list_of_generator.simps[of c f "Suspended (i # rows)"])
qed

lemma list_of_generator_Created:
  assumes "select_request_ids f = Inr rows"
  shows "list_of_generator True f Created = Inr (map HashIDRequest rows)"
proof (cases rows)
  case Nil
  with assms show ?thesis by (simp add: list_of_generator.simps[of True f Created])
next
  case (Cons i rest)
  with assms list_of_generator_Suspended[of True f rest] show ?thesis
    by (simp add: list_of_generator.simps[of True f Created])
qed

lemma list_of_generator_closed_cursor:
  "list_of_generator False f Created = Inl ProgrammingError"
  by (simp add: list_of_generator.simps[of False f Created])

lemma iter_hash_id_requests_Created:
  "iter_hash_id_requests self =
     (Inr Created, self\<lparr>db := \<lparr>committed = working (db self), working = working (db self)\<rparr>\<rparr>)"
  by (simp add: iter_hash_id_requests_def iter_hash_id_requests_body_def
      on_db_def with_cursor_def commit_def)

lemma iter_hash_id_requests_at_once:
  assumes "package_tables_of (working (db self)) = Inr p"
  shows "list_of_generator True (working (db (snd (iter_hash_id_requests self)))) Created =
     Inr (map (\<lambda>r. HashIDRequest (request_row_id r)) (hash_id_request_tbl p))"
proof -
  have "select_request_ids (working (db (snd (iter_hash_id_requests self)))) =
     Inr (map request_row_id (hash_id_request_tbl p))"
    using assms by (simp add: iter_hash_id_requests_Created select_request_ids_def)
  from list_of_generator_Created[OF this] show ?thesis by (simp add: comp_def)
qed

lemmas request_eval = empty_package_tables_def connect_def connection_on_def
  package_tables_of_def set_package_tables_def
  add_hash_id_request_def add_hash_id_request_body_def iter_hash_id_requests_Created
  on_db_def with_cursor_def commit_def next_rowid_def Let_def

text \<open>
  Claim C3 at a store with the request 1, on which \<open>iter_hash_id_requests\<close> is called
  before the request 2 is added and the generator consumed after: the generator has
  not started when the call returns, and yields the requests 1 and 2, those present
  when it is first advanced, not the request 1 alone that was present at the call.
  Where the binding does not let a closed cursor execute, it yields nothing and raises.
\<close>

theorem iter_hash_id_requests_reads_at_first_next:
  "fst (add_hash_id_request example_store [''h1''] 1) = Inr (HashIDRequest 1) \<and>
   fst (iter_hash_id_requests example_request_store) = Inr Created \<and>
   select_request_ids (working (db example_request_store)) = Inr [1] \<and>
   fst (add_hash_id_request (snd (iter_hash_id_requests example_request_store)) [''h2''] 2) =
     Inr (HashIDRequest 2) \<and>
   list_of_generator True (working (db example_request_store_later)) Created =
     Inr [HashIDRequest 1, HashIDRequest 2] \<and>
   list_of_generator False (working (db example_request_store_later)) Created =
     Inl ProgrammingError"
proof -
  have "select_request_ids (working (db example_request_store_later)) = Inr [1, 2]"
    by (simp add: request_eval example_request_store_def example_request_store_later_def
      example_store_def example_package_db_def select_request_ids_def)
  from list_of_generator_Created[OF this]
  have "list_of_generator True (working (db example_request_store_later)) Created =
     Inr [HashIDRequest 1, HashIDRequest 2]" by simp
  moreover have "fst (add_hash_id_request example_store [''h1''] 1) = Inr (HashIDRequest 1)"
    by (simp add: request_eval example_request_store_def example_request_store_later_def
      example_store_def example_package_db_def)
  moreover have "select_request_ids (working (db example_request_store)) = Inr [1]"
    by (simp add: request_eval example_request_store_def example_request_store_later_def
      example_store_def example_package_db_def select_request_ids_def)
  moreover have "fst (add_hash_id_request (snd (iter_hash_id_requests example_request_store))
     [''h2''] 2) = Inr (HashIDRequest 2)"
    by (simp add: request_eval example_request_store_def example_request_store_later_def
      example_store_def example_package_db_def)
  ultimately show ?thesis
    by (simp add: iter_hash_id_requests_Created list_of_generator_closed_cursor)
qed

subsection \<open>The example stores are states the code reaches\<close>

lemmas init_eval = PackageStore_init_def HashIdStore_init_def ensure_hash_id_schema_def
  create_table_hash_def ensure_package_schema_def create_package_tables_def
  empty_database_def connect_def connection_on_def commit_def Let_def

lemma PackageStore_init_fresh:
  "PackageStore_init fname Absent =
     Inr \<lparr>filename = fname,
          db = connection_on (Db \<lparr>hash_tbl = Some (HashRows []),
                 package_tbls = Some empty_package_tables\<rparr>),
          hash_id_stores = []\<rparr>"
  by (simp add: init_eval)

lemma HashIdStore_init_fresh:
  "HashIdStore_init ''hash-id-db'' Absent = Inr example_hash_id_store"
  by (simp add: init_eval example_hash_id_store_def example_hash_db_def)

lemma example_store_reached:
  "example_store = snd (set_hash_ids (projr (PackageStore_init ''database'' Absent)) [(''h'', 5)])"
  by (simp add: PackageStore_init_fresh example_store_def example_package_db_def hash_eval)

lemma example_task_store_reached:
  "example_task_store =
     snd (add_task (snd (add_task (snd (add_task (snd (add_task
       (projr (PackageStore_init ''database'' Absent))
       ''default'' (PyInt 0) 20)) ''default'' (PyInt 1) 10)) ''default'' (PyInt 2) 10))
       ''other'' (PyInt 3) 5)"
  by (simp add: PackageStore_init_fresh example_task_store_def example_task_rows_def
      empty_package_tables_def connect_def connection_on_def package_tables_of_def set_package_tables_def
      add_task_def add_task_body_def on_db_def with_cursor_def commit_def
      PackageTask_init_def next_rowid_def Let_def bpickle_dumps_def)

end
